theory Spec2Isabelle
  imports Complex_Main "HOL-Library.Multiset"
begin

section \<open>Native values and IR instructions\<close>

text \<open>
  The arguments of an IR instruction are Python values: entity names, property keys and
  type tags are strings, the native value of a literal is a string, an integer, a
  floating-point number, a boolean or \<open>None\<close> (\<open>IRBuilderListener.exitPropiedad\<close>).
  A float is represented by the real number it denotes.
\<close>

datatype pyval = PStr string | PInt int | PFloat real | PBool bool | PNone

text \<open>
  Python dictionaries and sets compare keys with \<open>==\<close>, under which \<open>True\<close>, \<open>1\<close> and
  \<open>1.0\<close> are one key. \<open>dict_key\<close> maps a value to the representative of its class, so
  that two values are the same dictionary key exactly when their representatives are equal.
  On strings it is the identity.
\<close>

fun dict_key :: "pyval \<Rightarrow> pyval" where
  "dict_key (PBool b) = PInt (if b then 1 else 0)"
| "dict_key (PFloat r) = (if r = of_int \<lfloor>r\<rfloor> then PInt \<lfloor>r\<rfloor> else PFloat r)"
| "dict_key v = v"

text \<open>An instruction is the dictionary \<open>{"opcode": ..., "args": [...]}\<close>.\<close>

record instr =
  opcode :: string
  args :: "pyval list"

datatype py_error = IndexError | ValueError | KeyError | TypeError | AttributeError | NameError

section \<open>optimizer.py\<close>

subsection \<open>Phase 1: \<open>_remove_redundant_sets\<close>\<close>

text \<open>
  First loop: \<open>last_writes[(obj_name, key)] = i\<close> for every \<open>IR_SET_PROPERTY\<close> at index
  \<open>i\<close>. Reading \<open>args[0]\<close> or \<open>args[1]\<close> of a shorter argument list raises IndexError.
\<close>

fun record_last_writes ::
  "nat \<Rightarrow> instr list \<Rightarrow> (pyval \<times> pyval \<rightharpoonup> nat) \<Rightarrow> py_error + (pyval \<times> pyval \<rightharpoonup> nat)" where
  "record_last_writes i [] last_writes = Inr last_writes"
| "record_last_writes i (x # xs) last_writes =
     (if opcode x = ''IR_SET_PROPERTY'' then
        (case args x of
           obj_name # key # _ \<Rightarrow>
             record_last_writes (Suc i) xs (last_writes((dict_key obj_name, dict_key key) \<mapsto> i))
         | _ \<Rightarrow> Inl IndexError)
      else record_last_writes (Suc i) xs last_writes)"

text \<open>
  Second loop: an \<open>IR_SET_PROPERTY\<close> is appended to \<open>new_instructions\<close> only when
  \<open>last_writes.get((obj_name, key)) == i\<close>; every other instruction is appended.
\<close>

fun keep_last_writes ::
  "(pyval \<times> pyval \<rightharpoonup> nat) \<Rightarrow> nat \<Rightarrow> instr list \<Rightarrow> instr list \<Rightarrow> py_error + instr list" where
  "keep_last_writes last_writes i [] new_instructions = Inr new_instructions"
| "keep_last_writes last_writes i (x # xs) new_instructions =
     (if opcode x = ''IR_SET_PROPERTY'' then
        (case args x of
           obj_name # key # _ \<Rightarrow>
             (if last_writes (dict_key obj_name, dict_key key) = Some i
              then keep_last_writes last_writes (Suc i) xs (new_instructions @ [x])
              else keep_last_writes last_writes (Suc i) xs new_instructions)
         | _ \<Rightarrow> Inl IndexError)
      else keep_last_writes last_writes (Suc i) xs (new_instructions @ [x]))"

definition remove_redundant_sets :: "instr list \<Rightarrow> py_error + instr list" where
  "remove_redundant_sets instructions =
     (case record_last_writes 0 instructions Map.empty of
        Inl e \<Rightarrow> Inl e
      | Inr last_writes \<Rightarrow> keep_last_writes last_writes 0 instructions [])"

subsection \<open>Phase 2: \<open>_group_instructions\<close>\<close>

text \<open>The first loop sorts every instruction into \<open>creations\<close>, \<open>operations\<close> or \<open>others\<close>.\<close>

fun classify ::
  "instr list \<Rightarrow> instr list \<times> instr list \<times> instr list \<Rightarrow> instr list \<times> instr list \<times> instr list" where
  "classify [] acc = acc"
| "classify (x # xs) (creations, operations, others) =
     (if opcode x = ''IR_CREATE_OBJECT'' \<or> opcode x = ''IR_CREATE_LIST''
      then classify xs (creations @ [x], operations, others)
      else if opcode x = ''IR_SET_PROPERTY'' \<or> opcode x = ''IR_APPEND_LIST''
      then classify xs (creations, operations @ [x], others)
      else classify xs (creations, operations, others @ [x]))"

text \<open>\<open>ops_by_entity\<close>: entity name to the list of its operations, in their order.\<close>

fun bucket_ops ::
  "instr list \<Rightarrow> (pyval \<rightharpoonup> instr list) \<Rightarrow> py_error + (pyval \<rightharpoonup> instr list)" where
  "bucket_ops [] ops_by_entity = Inr ops_by_entity"
| "bucket_ops (x # xs) ops_by_entity =
     (case args x of
        [] \<Rightarrow> Inl IndexError
      | entity_name # _ \<Rightarrow>
          (case ops_by_entity (dict_key entity_name) of
             None \<Rightarrow> bucket_ops xs (ops_by_entity(dict_key entity_name \<mapsto> [x]))
           | Some b \<Rightarrow> bucket_ops xs (ops_by_entity(dict_key entity_name \<mapsto> b @ [x]))))"

text \<open>
  The rebuilding loop: each creation, then the whole bucket of its entity when there is one;
  the entity is then marked as processed.
\<close>

fun emit_creations ::
  "(pyval \<rightharpoonup> instr list) \<Rightarrow> instr list \<Rightarrow> instr list \<times> pyval set
     \<Rightarrow> py_error + instr list \<times> pyval set" where
  "emit_creations ops_by_entity [] acc = Inr acc"
| "emit_creations ops_by_entity (c # cs) (grouped_instructions, processed_entities) =
     (case args c of
        [] \<Rightarrow> Inl IndexError
      | entity_name # _ \<Rightarrow>
          (case ops_by_entity (dict_key entity_name) of
             Some b \<Rightarrow>
               emit_creations ops_by_entity cs
                 (grouped_instructions @ [c] @ b, insert (dict_key entity_name) processed_entities)
           | None \<Rightarrow>
               emit_creations ops_by_entity cs (grouped_instructions @ [c], processed_entities)))"

text \<open>The last loop appends the operations whose entity was not processed.\<close>

fun append_orphans :: "pyval set \<Rightarrow> instr list \<Rightarrow> instr list \<Rightarrow> py_error + instr list" where
  "append_orphans processed_entities [] grouped_instructions = Inr grouped_instructions"
| "append_orphans processed_entities (x # xs) grouped_instructions =
     (case args x of
        [] \<Rightarrow> Inl IndexError
      | entity_name # _ \<Rightarrow>
          (if dict_key entity_name \<notin> processed_entities
           then append_orphans processed_entities xs (grouped_instructions @ [x])
           else append_orphans processed_entities xs grouped_instructions))"

definition group_instructions :: "instr list \<Rightarrow> py_error + instr list" where
  "group_instructions instructions =
     (case classify instructions ([], [], []) of
        (creations, operations, others) \<Rightarrow>
          if others \<noteq> [] then Inr instructions
          else (case bucket_ops operations Map.empty of
                  Inl e \<Rightarrow> Inl e
                | Inr ops_by_entity \<Rightarrow>
                    (case emit_creations ops_by_entity creations ([], {}) of
                       Inl e \<Rightarrow> Inl e
                     | Inr (grouped_instructions, processed_entities) \<Rightarrow>
                         append_orphans processed_entities operations grouped_instructions)))"

subsection \<open>\<open>optimize_ir\<close>\<close>

definition optimize_ir :: "instr list \<Rightarrow> py_error + instr list" where
  "optimize_ir ir_instructions =
     (if ir_instructions = [] then Inr []
      else (case remove_redundant_sets ir_instructions of
              Inl e \<Rightarrow> Inl e
            | Inr optimized \<Rightarrow> group_instructions optimized))"

subsection \<open>Vocabulary for the optimizer's properties\<close>

text \<open>\<open>mk\<close> writes an instruction as the IR builder does: an opcode and its arguments.\<close>

definition mk :: "string \<Rightarrow> pyval list \<Rightarrow> instr" where
  "mk oc as = \<lparr>opcode = oc, args = as\<rparr>"

definition is_set :: "instr \<Rightarrow> bool" where
  "is_set x = (opcode x = ''IR_SET_PROPERTY'')"

definition is_creation :: "instr \<Rightarrow> bool" where
  "is_creation x = (opcode x = ''IR_CREATE_OBJECT'' \<or> opcode x = ''IR_CREATE_LIST'')"

definition is_operation :: "instr \<Rightarrow> bool" where
  "is_operation x = (opcode x = ''IR_SET_PROPERTY'' \<or> opcode x = ''IR_APPEND_LIST'')"

definition known_opcode :: "instr \<Rightarrow> bool" where
  "known_opcode x = (is_creation x \<or> is_operation x)"

text \<open>
  The dictionary key \<open>(obj_name, key)\<close> of a write and the dictionary key of the entity
  that an instruction names; \<open>None\<close> where the argument list is too short to have one.
\<close>

definition write_key :: "instr \<Rightarrow> (pyval \<times> pyval) option" where
  "write_key x =
     (case args x of
        obj_name # key # _ \<Rightarrow> Some (dict_key obj_name, dict_key key)
      | _ \<Rightarrow> None)"

definition entity_key :: "instr \<Rightarrow> pyval option" where
  "entity_key x = (case args x of [] \<Rightarrow> None | entity_name # _ \<Rightarrow> Some (dict_key entity_name))"

text \<open>
  The shapes under which no index is out of range: every \<open>IR_SET_PROPERTY\<close> has its
  object name and key (phase 1), every instruction has its entity name (phase 2).
\<close>

definition sets_ok :: "instr list \<Rightarrow> bool" where
  "sets_ok xs = (\<forall>x \<in> set xs. is_set x \<longrightarrow> 2 \<le> length (args x))"

definition has_args :: "instr list \<Rightarrow> bool" where
  "has_args xs = (\<forall>x \<in> set xs. args x \<noteq> [])"

text \<open>
  The position of the last write to a key, and phase 1 as a function on lists: a write
  is dropped when a later instruction writes the same key. \<open>overwritten xs i\<close> says the
  same of the instruction at index \<open>i\<close>.
\<close>

fun last_pos :: "pyval \<times> pyval \<Rightarrow> instr list \<Rightarrow> nat option" where
  "last_pos k [] = None"
| "last_pos k (x # xs) =
     (case last_pos k xs of
        Some j \<Rightarrow> Some (Suc j)
      | None \<Rightarrow> if is_set x \<and> write_key x = Some k then Some 0 else None)"

fun last_only :: "instr list \<Rightarrow> instr list" where
  "last_only [] = []"
| "last_only (x # xs) =
     (if is_set x \<and> (\<exists>y \<in> set xs. is_set y \<and> write_key y = write_key x)
      then last_only xs else x # last_only xs)"

definition overwritten :: "instr list \<Rightarrow> nat \<Rightarrow> bool" where
  "overwritten xs i =
     (\<exists>j. i < j \<and> j < length xs \<and> is_set (xs ! j) \<and> write_key (xs ! j) = write_key (xs ! i))"

text \<open>
  Phase 2 as a function on lists: the bucket of a creation is the operations on its
  entity, in their order; the orphans are the operations on entities that no instruction
  creates; the grouped list has every creation with its bucket, then the orphans.
\<close>

definition bucket_of :: "instr \<Rightarrow> instr list \<Rightarrow> instr list" where
  "bucket_of c xs = filter (\<lambda>x. is_operation x \<and> entity_key x = entity_key c) xs"

definition orphans :: "instr list \<Rightarrow> instr list" where
  "orphans xs =
     filter (\<lambda>x. is_operation x \<and> \<not> (\<exists>c \<in> set xs. is_creation c \<and> entity_key c = entity_key x)) xs"

definition grouped :: "instr list \<Rightarrow> instr list" where
  "grouped xs = concat (map (\<lambda>c. c # bucket_of c xs) (filter is_creation xs)) @ orphans xs"

text \<open>No two creation instructions name the same entity.\<close>

definition distinct_creations :: "instr list \<Rightarrow> bool" where
  "distinct_creations xs = distinct (map entity_key (filter is_creation xs))"

text \<open>\<open>optimize(optimize(x))\<close>: an exception of the first call is the result.\<close>

definition optimize_twice :: "instr list \<Rightarrow> py_error + instr list" where
  "optimize_twice xs = (case optimize_ir xs of Inl e \<Rightarrow> Inl e | Inr ys \<Rightarrow> optimize_ir ys)"

subsection \<open>Example instruction sequences\<close>

text \<open>
  Two entities with interleaved operations, a repeated write and a write to an entity
  that is never created; a sequence with an opcode that the optimizer does not know; a
  list that is created twice.
\<close>

definition ex_grouping :: "instr list" where
  "ex_grouping =
     [mk ''IR_CREATE_LIST'' [PStr ''l''],
      mk ''IR_CREATE_OBJECT'' [PStr ''o''],
      mk ''IR_APPEND_LIST'' [PStr ''l'', PStr ''NUMBER'', PInt 7],
      mk ''IR_SET_PROPERTY'' [PStr ''o'', PStr ''k'', PStr ''NUMBER'', PInt 1],
      mk ''IR_SET_PROPERTY'' [PStr ''u'', PStr ''k'', PStr ''NUMBER'', PInt 5],
      mk ''IR_SET_PROPERTY'' [PStr ''o'', PStr ''k'', PStr ''NUMBER'', PInt 2]]"

definition ex_unknown :: "instr list" where
  "ex_unknown =
     [mk ''IR_PRINT'' [PStr ''o''],
      mk ''IR_SET_PROPERTY'' [PStr ''o'', PStr ''k'', PStr ''NUMBER'', PInt 1],
      mk ''IR_CREATE_OBJECT'' [PStr ''o''],
      mk ''IR_SET_PROPERTY'' [PStr ''o'', PStr ''k'', PStr ''NUMBER'', PInt 2]]"

definition ex_recreate :: "instr list" where
  "ex_recreate =
     [mk ''IR_CREATE_LIST'' [PStr ''A''],
      mk ''IR_APPEND_LIST'' [PStr ''A'', PStr ''NUMBER'', PInt 1],
      mk ''IR_CREATE_LIST'' [PStr ''A'']]"

section \<open>analyzer_core.py\<close>

subsection \<open>The parse tree\<close>

text \<open>
  The parser is generated from a grammar outside the analysed sources; the listeners read
  the tree through the accessors modelled here. A \<open>valor\<close> node holds one literal token:
  a \<open>STRING\<close> with its source text (quotes included), a \<open>NUMERO_ENTERO\<close> or
  \<open>NUMERO_DECIMAL\<close> with the number that \<open>int(getText())\<close> or \<open>float(getText())\<close> reads,
  or a boolean keyword. \<open>SIN_TOKEN\<close> is a node on which every accessor returns \<open>None\<close>.
  Names and keys are strings of 8-bit characters.
\<close>

datatype valor =
    STRING string
  | NUMERO_ENTERO int
  | NUMERO_DECIMAL real
  | KW_VERDADERO
  | KW_FALSO
  | SIN_TOKEN

record propiedad =
  clave :: string
  valor :: valor

text \<open>
  A command carries its name token, the line and (0-based) column of its first token, and
  its body: the properties of an object, or the elements under \<open>items_lista\<close>.
\<close>

datatype comando =
    Crear_objeto_cmd string int int "propiedad list"
  | Crear_lista_cmd string int int "valor list"

type_synonym programa = "comando list"

subsection \<open>\<open>SymbolEntry\<close> and \<open>SymbolTable\<close>\<close>

datatype meta_value = Props "string \<rightharpoonup> string" | Tipos "string list"

type_synonym metadatos = "string \<rightharpoonup> meta_value"

record symbol_entry =
  nombre :: string
  tipo_entidad :: string
  linea :: int
  columna :: int
  metadatos :: metadatos

text \<open>\<open>SymbolEntry.__init__\<close>: \<open>self.metadatos = metadatos or {}\<close>.\<close>

definition SymbolEntry :: "string \<Rightarrow> string \<Rightarrow> int \<Rightarrow> int \<Rightarrow> metadatos option \<Rightarrow> symbol_entry" where
  "SymbolEntry n t l c m =
     \<lparr>nombre = n, tipo_entidad = t, linea = l, columna = c,
      metadatos = (case m of None \<Rightarrow> Map.empty | Some d \<Rightarrow> d)\<rparr>"

type_synonym symbol_table = "string \<rightharpoonup> symbol_entry"

definition reserved_words :: "string set" where
  "reserved_words =
     {''CREAR'', ''OBJETO'', ''LISTA'', ''CON'', ''ELEMENTOS'', ''VERDADERO'', ''FALSO''}"

text \<open>
  \<open>str.upper\<close> on 8-bit characters, as far as membership in \<open>reserved_words\<close> can see:
  the letters a to z go to A to Z; no other 8-bit character has an upper case made of
  ASCII letters that occur in a reserved word, so it is left as it is.
\<close>

definition upper_char :: "char \<Rightarrow> char" where
  "upper_char c =
     (let n = (of_char c :: nat) in if 97 \<le> n \<and> n \<le> 122 then char_of (n - 32) else c)"

definition upper :: "string \<Rightarrow> string" where
  "upper s = map upper_char s"

definition is_reserved :: "string \<Rightarrow> bool" where
  "is_reserved name = (upper name \<in> reserved_words)"

definition lookup :: "symbol_table \<Rightarrow> string \<Rightarrow> symbol_entry option" where
  "lookup symbols name = symbols name"

text \<open>\<open>declare\<close> returns its boolean result and the table after the call.\<close>

definition declare_symbol ::
  "symbol_table \<Rightarrow> string \<Rightarrow> string \<Rightarrow> int \<Rightarrow> int \<Rightarrow> metadatos option \<Rightarrow> bool \<times> symbol_table" where
  "declare_symbol symbols n t l c m =
     (if n \<in> dom symbols then (False, symbols)
      else (True, symbols(n \<mapsto> SymbolEntry n t l c m)))"

definition get_value_type :: "valor \<Rightarrow> string" where
  "get_value_type ctx =
     (case ctx of
        STRING _ \<Rightarrow> ''STRING''
      | NUMERO_ENTERO _ \<Rightarrow> ''NUMBER''
      | NUMERO_DECIMAL _ \<Rightarrow> ''NUMBER''
      | KW_VERDADERO \<Rightarrow> ''BOOLEAN''
      | KW_FALSO \<Rightarrow> ''BOOLEAN''
      | SIN_TOKEN \<Rightarrow> ''UNKNOWN'')"

subsection \<open>\<open>CustomErrorListener\<close>\<close>

text \<open>
  A message is kept by its content, not by its Spanish text: for a semantic error the
  reserved name, or the redefined name with the kind and line of the earlier declaration;
  for an error reported by the lexer or the parser the text it reported.
\<close>

datatype sem_message = Palabra_reservada string | Redefinicion string string int

datatype diagnostic =
    Error_lexico string int int string
  | Error_sintactico string int int string
  | Error_semantico string int int sem_message

record error_listener =
  source_name :: string
  lexer_errors :: nat
  parser_errors :: nat
  semantic_errors :: nat
  error_messages :: "diagnostic list"

definition CustomErrorListener :: "string \<Rightarrow> error_listener" where
  "CustomErrorListener src =
     \<lparr>source_name = src, lexer_errors = 0, parser_errors = 0, semantic_errors = 0,
      error_messages = []\<rparr>"

definition add_semantic_error :: "error_listener \<Rightarrow> int \<Rightarrow> int \<Rightarrow> sem_message \<Rightarrow> error_listener" where
  "add_semantic_error el line column message =
     el\<lparr>semantic_errors := semantic_errors el + 1,
        error_messages := error_messages el @
          [Error_semantico (source_name el) line column message]\<rparr>"

text \<open>
  \<open>syntaxError\<close> is called by the lexer and by the parser, once for every error they find:
  with whether the recognizer is the lexer, the line, the 0-based column and the message.
\<close>

record syntax_error_event =
  from_lexer :: bool
  ev_line :: int
  ev_column :: int
  ev_msg :: string

definition syntaxError :: "error_listener \<Rightarrow> syntax_error_event \<Rightarrow> error_listener" where
  "syntaxError el ev =
     (let user_column = ev_column ev + 1 in
      if from_lexer ev then
        el\<lparr>lexer_errors := lexer_errors el + 1,
           error_messages := error_messages el @
             [Error_lexico (source_name el) (ev_line ev) user_column (ev_msg ev)]\<rparr>
      else
        el\<lparr>parser_errors := parser_errors el + 1,
           error_messages := error_messages el @
             [Error_sintactico (source_name el) (ev_line ev) user_column (ev_msg ev)]\<rparr>)"

definition get_total_errors :: "error_listener \<Rightarrow> nat" where
  "get_total_errors el = lexer_errors el + parser_errors el + semantic_errors el"

subsection \<open>\<open>SemanticAnalyzer\<close>\<close>

record semantic_analyzer =
  sa_errors :: error_listener
  sa_symbols :: symbol_table
  current_symbol_name :: "string option"

text \<open>
  \<open>enterCrear_objeto_cmd\<close> and \<open>enterCrear_lista_cmd\<close> differ in the kind and in the
  initial metadata only. The previous entry is always there when \<open>declare\<close> fails;
  reading \<open>entry_prev.tipo_entidad\<close> of \<open>None\<close> would raise AttributeError.
\<close>

definition enter_crear ::
  "string \<Rightarrow> metadatos \<Rightarrow> semantic_analyzer \<Rightarrow> string \<Rightarrow> int \<Rightarrow> int \<Rightarrow> py_error + semantic_analyzer" where
  "enter_crear kind metadatos0 st nombre0 line column =
     (let linea0 = line; columna0 = column + 1 in
      if is_reserved nombre0 then
        Inr (st\<lparr>sa_errors := add_semantic_error (sa_errors st) linea0 columna0 (Palabra_reservada nombre0),
                current_symbol_name := None\<rparr>)
      else
        (case declare_symbol (sa_symbols st) nombre0 kind linea0 columna0 (Some metadatos0) of
           (exito, symbols') \<Rightarrow>
             if \<not> exito then
               (case lookup symbols' nombre0 of
                  None \<Rightarrow> Inl AttributeError
                | Some entry_prev \<Rightarrow>
                    Inr (st\<lparr>sa_errors := add_semantic_error (sa_errors st) linea0 columna0
                                (Redefinicion nombre0 (tipo_entidad entry_prev) (linea entry_prev)),
                            sa_symbols := symbols',
                            current_symbol_name := None\<rparr>))
             else Inr (st\<lparr>sa_symbols := symbols', current_symbol_name := Some nombre0\<rparr>)))"

definition sa_enterCrear_objeto_cmd ::
  "semantic_analyzer \<Rightarrow> string \<Rightarrow> int \<Rightarrow> int \<Rightarrow> py_error + semantic_analyzer" where
  "sa_enterCrear_objeto_cmd = enter_crear ''objeto'' [''propiedades'' \<mapsto> Props Map.empty]"

definition sa_enterCrear_lista_cmd ::
  "semantic_analyzer \<Rightarrow> string \<Rightarrow> int \<Rightarrow> int \<Rightarrow> py_error + semantic_analyzer" where
  "sa_enterCrear_lista_cmd = enter_crear ''lista'' [''tipos_elementos'' \<mapsto> Tipos []]"

definition sa_exitCrear_cmd :: "semantic_analyzer \<Rightarrow> semantic_analyzer" where
  "sa_exitCrear_cmd st = st\<lparr>current_symbol_name := None\<rparr>"

text \<open>
  \<open>enterPropiedad\<close>: under a current symbol that is neither \<open>None\<close> nor the empty string,
  \<open>entry.metadatos["propiedades"][clave] = tipo_valor\<close> on the entry of an object. The
  entry is the object stored in the table under the current name.
\<close>

definition sa_enterPropiedad :: "semantic_analyzer \<Rightarrow> propiedad \<Rightarrow> py_error + semantic_analyzer" where
  "sa_enterPropiedad st ctx =
     (case current_symbol_name st of
        None \<Rightarrow> Inr st
      | Some cur \<Rightarrow>
          if cur = [] then Inr st
          else
            (case lookup (sa_symbols st) cur of
               None \<Rightarrow> Inr st
             | Some entry \<Rightarrow>
                 if tipo_entidad entry = ''objeto'' then
                   (case metadatos entry ''propiedades'' of
                      None \<Rightarrow> Inl KeyError
                    | Some (Tipos _) \<Rightarrow> Inl TypeError
                    | Some (Props ps) \<Rightarrow>
                        Inr (st\<lparr>sa_symbols := (sa_symbols st)(cur \<mapsto>
                               entry\<lparr>metadatos := (metadatos entry)(''propiedades'' \<mapsto>
                                 Props (ps(clave ctx \<mapsto> get_value_type (valor ctx))))\<rparr>)\<rparr>))
                 else Inr st))"

text \<open>\<open>enterValor\<close>: \<open>entry.metadatos["tipos_elementos"].append(tipo_valor)\<close> on a list.\<close>

definition sa_enterValor :: "semantic_analyzer \<Rightarrow> valor \<Rightarrow> py_error + semantic_analyzer" where
  "sa_enterValor st ctx =
     (case current_symbol_name st of
        None \<Rightarrow> Inr st
      | Some cur \<Rightarrow>
          if cur = [] then Inr st
          else
            (case lookup (sa_symbols st) cur of
               None \<Rightarrow> Inr st
             | Some entry \<Rightarrow>
                 if tipo_entidad entry = ''lista'' then
                   (case metadatos entry ''tipos_elementos'' of
                      None \<Rightarrow> Inl KeyError
                    | Some (Props _) \<Rightarrow> Inl AttributeError
                    | Some (Tipos ts) \<Rightarrow>
                        Inr (st\<lparr>sa_symbols := (sa_symbols st)(cur \<mapsto>
                               entry\<lparr>metadatos := (metadatos entry)(''tipos_elementos'' \<mapsto>
                                 Tipos (ts @ [get_value_type ctx]))\<rparr>)\<rparr>))
                 else Inr st))"

subsection \<open>\<open>ParseTreeWalker.walk\<close> with the semantic analyzer\<close>

text \<open>
  The walker enters a node, walks its children from left to right, and leaves it. Under
  a property the only rule node is its \<open>valor\<close>; the analyzer has no \<open>exitPropiedad\<close> and
  no \<open>exitValor\<close>.
\<close>

fun sa_walk_propiedades :: "semantic_analyzer \<Rightarrow> propiedad list \<Rightarrow> py_error + semantic_analyzer" where
  "sa_walk_propiedades st [] = Inr st"
| "sa_walk_propiedades st (p # ps) =
     (case sa_enterPropiedad st p of
        Inl e \<Rightarrow> Inl e
      | Inr st1 \<Rightarrow>
          (case sa_enterValor st1 (valor p) of
             Inl e \<Rightarrow> Inl e
           | Inr st2 \<Rightarrow> sa_walk_propiedades st2 ps))"

fun sa_walk_items :: "semantic_analyzer \<Rightarrow> valor list \<Rightarrow> py_error + semantic_analyzer" where
  "sa_walk_items st [] = Inr st"
| "sa_walk_items st (v # vs) =
     (case sa_enterValor st v of
        Inl e \<Rightarrow> Inl e
      | Inr st1 \<Rightarrow> sa_walk_items st1 vs)"

fun sa_walk_comando :: "semantic_analyzer \<Rightarrow> comando \<Rightarrow> py_error + semantic_analyzer" where
  "sa_walk_comando st (Crear_objeto_cmd nombre_obj line column propiedades) =
     (case sa_enterCrear_objeto_cmd st nombre_obj line column of
        Inl e \<Rightarrow> Inl e
      | Inr st1 \<Rightarrow>
          (case sa_walk_propiedades st1 propiedades of
             Inl e \<Rightarrow> Inl e
           | Inr st2 \<Rightarrow> Inr (sa_exitCrear_cmd st2)))"
| "sa_walk_comando st (Crear_lista_cmd nombre_lista line column items) =
     (case sa_enterCrear_lista_cmd st nombre_lista line column of
        Inl e \<Rightarrow> Inl e
      | Inr st1 \<Rightarrow>
          (case sa_walk_items st1 items of
             Inl e \<Rightarrow> Inl e
           | Inr st2 \<Rightarrow> Inr (sa_exitCrear_cmd st2)))"

fun sa_walk :: "semantic_analyzer \<Rightarrow> programa \<Rightarrow> py_error + semantic_analyzer" where
  "sa_walk st [] = Inr st"
| "sa_walk st (c # cs) =
     (case sa_walk_comando st c of
        Inl e \<Rightarrow> Inl e
      | Inr st1 \<Rightarrow> sa_walk st1 cs)"

subsection \<open>\<open>IRBuilderListener\<close>\<close>

record ir_builder =
  ir_instructions :: "instr list"
  current_obj_name :: "string option"
  current_list_name :: "string option"

text \<open>The Python slice \<open>text[1:-1]\<close>: the text without its first and last character.\<close>

definition strip_ends :: "string \<Rightarrow> string" where
  "strip_ends text = butlast (tl text)"

text \<open>The chain of \<open>if\<close>/\<open>elif\<close> that extracts \<open>valor_nativo\<close>.\<close>

definition valor_nativo :: "valor \<Rightarrow> pyval" where
  "valor_nativo ctx =
     (case ctx of
        STRING text \<Rightarrow> PStr (strip_ends text)
      | NUMERO_ENTERO n \<Rightarrow> PInt n
      | NUMERO_DECIMAL r \<Rightarrow> PFloat r
      | KW_VERDADERO \<Rightarrow> PBool True
      | KW_FALSO \<Rightarrow> PBool False
      | SIN_TOKEN \<Rightarrow> PNone)"

definition ir_enterCrear_objeto_cmd :: "ir_builder \<Rightarrow> string \<Rightarrow> ir_builder" where
  "ir_enterCrear_objeto_cmd b nombre0 =
     b\<lparr>current_obj_name := Some nombre0,
       ir_instructions := ir_instructions b @ [mk ''IR_CREATE_OBJECT'' [PStr nombre0]]\<rparr>"

definition ir_exitCrear_objeto_cmd :: "ir_builder \<Rightarrow> ir_builder" where
  "ir_exitCrear_objeto_cmd b = b\<lparr>current_obj_name := None\<rparr>"

text \<open>\<open>if self.current_obj_name:\<close> holds for a name that is not the empty string.\<close>

definition ir_exitPropiedad :: "ir_builder \<Rightarrow> propiedad \<Rightarrow> ir_builder" where
  "ir_exitPropiedad b ctx =
     (case current_obj_name b of
        None \<Rightarrow> b
      | Some obj \<Rightarrow>
          if obj = [] then b
          else b\<lparr>ir_instructions := ir_instructions b @
                 [mk ''IR_SET_PROPERTY''
                    [PStr obj, PStr (clave ctx),
                     PStr (get_value_type (valor ctx)), valor_nativo (valor ctx)]]\<rparr>)"

definition ir_enterCrear_lista_cmd :: "ir_builder \<Rightarrow> string \<Rightarrow> ir_builder" where
  "ir_enterCrear_lista_cmd b nombre0 =
     b\<lparr>current_list_name := Some nombre0,
       ir_instructions := ir_instructions b @ [mk ''IR_CREATE_LIST'' [PStr nombre0]]\<rparr>"

definition ir_exitCrear_lista_cmd :: "ir_builder \<Rightarrow> ir_builder" where
  "ir_exitCrear_lista_cmd b = b\<lparr>current_list_name := None\<rparr>"

text \<open>
  \<open>exitValor\<close> appends only under \<open>items_lista\<close>; the flag says whether the parent of the
  node is an \<open>Items_listaContext\<close>.
\<close>

definition ir_exitValor :: "ir_builder \<Rightarrow> bool \<Rightarrow> valor \<Rightarrow> ir_builder" where
  "ir_exitValor b parent_is_items_lista ctx =
     (case current_list_name b of
        None \<Rightarrow> b
      | Some lst \<Rightarrow>
          if lst \<noteq> [] \<and> parent_is_items_lista then
            b\<lparr>ir_instructions := ir_instructions b @
                [mk ''IR_APPEND_LIST'' [PStr lst, PStr (get_value_type ctx), valor_nativo ctx]]\<rparr>
          else b)"

fun ir_walk_propiedades :: "ir_builder \<Rightarrow> propiedad list \<Rightarrow> ir_builder" where
  "ir_walk_propiedades b [] = b"
| "ir_walk_propiedades b (p # ps) =
     ir_walk_propiedades (ir_exitPropiedad (ir_exitValor b False (valor p)) p) ps"

fun ir_walk_items :: "ir_builder \<Rightarrow> valor list \<Rightarrow> ir_builder" where
  "ir_walk_items b [] = b"
| "ir_walk_items b (v # vs) = ir_walk_items (ir_exitValor b True v) vs"

fun ir_walk_comando :: "ir_builder \<Rightarrow> comando \<Rightarrow> ir_builder" where
  "ir_walk_comando b (Crear_objeto_cmd nombre_obj line column propiedades) =
     ir_exitCrear_objeto_cmd
       (ir_walk_propiedades (ir_enterCrear_objeto_cmd b nombre_obj) propiedades)"
| "ir_walk_comando b (Crear_lista_cmd nombre_lista line column items) =
     ir_exitCrear_lista_cmd (ir_walk_items (ir_enterCrear_lista_cmd b nombre_lista) items)"

fun ir_walk :: "ir_builder \<Rightarrow> programa \<Rightarrow> ir_builder" where
  "ir_walk b [] = b"
| "ir_walk b (c # cs) = ir_walk (ir_walk_comando b c) cs"

definition get_instructions :: "ir_builder \<Rightarrow> instr list" where
  "get_instructions b = ir_instructions b"

definition IRBuilderListener :: ir_builder where
  "IRBuilderListener = \<lparr>ir_instructions = [], current_obj_name = None, current_list_name = None\<rparr>"

subsection \<open>\<open>analyze_and_transform\<close>\<close>

text \<open>
  Of the returned tuple the model keeps the JSON string, the error messages and the
  statistics \<open>errores_lexicos\<close>, \<open>errores_sintacticos\<close>, \<open>errores_semanticos\<close>,
  \<open>symbols_debug\<close> and \<open>ir\<close>. The lexer and the parser enter through what they hand over:
  the errors they reported, in order, and the tree (a context object, which is always
  true in \<open>... and tree\<close>). The JSON path (\<open>JsonBuilderListener\<close> and \<open>json.dumps\<close>) reads the
  tree alone and is the parameter \<open>json_path\<close>.
\<close>

record analysis_result =
  json_output_string :: "string option"
  error_summary :: "diagnostic list"
  errores_lexicos :: nat
  errores_sintacticos :: nat
  errores_semanticos :: nat
  symbols_debug :: "string \<rightharpoonup> string \<times> metadatos"
  ir :: "instr list"

definition get_debug_info :: "symbol_table \<Rightarrow> (string \<rightharpoonup> string \<times> metadatos)" where
  "get_debug_info symbols =
     (\<lambda>name. case symbols name of
                None \<Rightarrow> None
              | Some entry \<Rightarrow> Some (tipo_entidad entry, metadatos entry))"

definition make_result ::
  "string option \<Rightarrow> error_listener \<Rightarrow> (string \<rightharpoonup> string \<times> metadatos) \<Rightarrow> instr list \<Rightarrow> analysis_result" where
  "make_result json el symbols_debug_info ir_output =
     \<lparr>json_output_string = json, error_summary = error_messages el,
      errores_lexicos = lexer_errors el, errores_sintacticos = parser_errors el,
      errores_semanticos = semantic_errors el, symbols_debug = symbols_debug_info,
      ir = ir_output\<rparr>"

definition analyze_and_transform ::
  "(programa \<Rightarrow> string) \<Rightarrow> string \<Rightarrow> syntax_error_event list \<Rightarrow> programa
     \<Rightarrow> py_error + analysis_result" where
  "analyze_and_transform json_path src parse_errors tree =
     (let error_listener0 = foldl syntaxError (CustomErrorListener src) parse_errors in
      if get_total_errors error_listener0 = 0 then
        (case sa_walk \<lparr>sa_errors = error_listener0, sa_symbols = Map.empty,
                       current_symbol_name = None\<rparr> tree of
           Inl e \<Rightarrow> Inl e
         | Inr semantic_analyzer0 \<Rightarrow>
             (let el = sa_errors semantic_analyzer0;
                  symbols_debug_info = get_debug_info (sa_symbols semantic_analyzer0)
              in
              if semantic_errors el = 0 then
                (case optimize_ir (get_instructions (ir_walk IRBuilderListener tree)) of
                   Inl e \<Rightarrow> Inl e
                 | Inr ir_output \<Rightarrow>
                     Inr (make_result (Some (json_path tree)) el symbols_debug_info ir_output))
              else Inr (make_result None el symbols_debug_info [])))
      else Inr (make_result None error_listener0 Map.empty []))"

subsection \<open>Vocabulary for the analyzer's properties\<close>

fun cmd_name :: "comando \<Rightarrow> string" where
  "cmd_name (Crear_objeto_cmd n l c ps) = n"
| "cmd_name (Crear_lista_cmd n l c vs) = n"

fun cmd_line :: "comando \<Rightarrow> int" where
  "cmd_line (Crear_objeto_cmd n l c ps) = l"
| "cmd_line (Crear_lista_cmd n l c vs) = l"

fun cmd_column :: "comando \<Rightarrow> int" where
  "cmd_column (Crear_objeto_cmd n l c ps) = c"
| "cmd_column (Crear_lista_cmd n l c vs) = c"

fun cmd_kind :: "comando \<Rightarrow> string" where
  "cmd_kind (Crear_objeto_cmd n l c ps) = ''objeto''"
| "cmd_kind (Crear_lista_cmd n l c vs) = ''lista''"

text \<open>The types recorded for the properties of an object, later writes to a key winning.\<close>

fun property_types :: "propiedad list \<Rightarrow> (string \<rightharpoonup> string) \<Rightarrow> (string \<rightharpoonup> string)" where
  "property_types [] m = m"
| "property_types (p # ps) m = property_types ps (m(clave p \<mapsto> get_value_type (valor p)))"

text \<open>
  The metadata that the body of a command leaves in its own entry. Under the empty name
  the current symbol counts as unset and nothing is recorded.
\<close>

fun cmd_metadatos :: "comando \<Rightarrow> metadatos" where
  "cmd_metadatos (Crear_objeto_cmd n l c ps) =
     [''propiedades'' \<mapsto> Props (if n = [] then Map.empty else property_types ps Map.empty)]"
| "cmd_metadatos (Crear_lista_cmd n l c vs) =
     [''tipos_elementos'' \<mapsto> Tipos (if n = [] then [] else map get_value_type vs)]"

definition declared_entry :: "comando \<Rightarrow> symbol_entry" where
  "declared_entry c =
     \<lparr>nombre = cmd_name c, tipo_entidad = cmd_kind c, linea = cmd_line c,
      columna = cmd_column c + 1, metadatos = cmd_metadatos c\<rparr>"

definition SemanticAnalyzer :: "error_listener \<Rightarrow> symbol_table \<Rightarrow> semantic_analyzer" where
  "SemanticAnalyzer el symbols = \<lparr>sa_errors = el, sa_symbols = symbols, current_symbol_name = None\<rparr>"

text \<open>
  Two characters are one letter in its two cases: one is a lower-case ASCII letter and
  the other lies 32 code points below it. Two names differ at most in letter case when
  they have the same length and agree at every position up to the case of a letter.
\<close>

definition other_case :: "char \<Rightarrow> char \<Rightarrow> bool" where
  "other_case x y =
     (let a = (of_char x :: nat); b = (of_char y :: nat) in
      (97 \<le> a \<and> a \<le> 122 \<and> b + 32 = a) \<or> (97 \<le> b \<and> b \<le> 122 \<and> a + 32 = b))"

definition case_variant :: "string \<Rightarrow> string \<Rightarrow> bool" where
  "case_variant a b = list_all2 (\<lambda>x y. x = y \<or> other_case x y) a b"

text \<open>The semantic pass of \<open>analyze_and_transform\<close> on a tree parsed without errors.\<close>

definition semantic_pass :: "string \<Rightarrow> programa \<Rightarrow> py_error + semantic_analyzer" where
  "semantic_pass src tree = sa_walk (SemanticAnalyzer (CustomErrorListener src) Map.empty) tree"

definition ex_redefinition :: programa where
  "ex_redefinition =
     [Crear_objeto_cmd ''a'' 1 0 [\<lparr>clave = ''k'', valor = NUMERO_ENTERO 1\<rparr>],
      Crear_lista_cmd ''b'' 2 0 [KW_VERDADERO],
      Crear_lista_cmd ''a'' 3 0 [STRING ''xyz'']]"

definition ex_objeto_a :: comando where
  "ex_objeto_a = Crear_objeto_cmd ''a'' 1 0 [\<lparr>clave = ''k'', valor = NUMERO_ENTERO 1\<rparr>]"

definition ex_lista_a :: comando where
  "ex_lista_a = Crear_lista_cmd ''a'' 3 0 [STRING ''xyz'']"

definition ex_objeto_A :: comando where
  "ex_objeto_A = Crear_objeto_cmd ''A'' 2 4 []"

subsection \<open>Vocabulary for the IR builder's properties\<close>



section \<open>codegen.py\<close>

subsection \<open>\<open>format_value\<close>\<close>

text \<open>Truth value of a Python value, as in \<open>"True" if valor else "False"\<close>.\<close>

definition py_truth :: "pyval \<Rightarrow> bool" where
  "py_truth v =
     (case v of PStr s \<Rightarrow> s \<noteq> [] | PInt i \<Rightarrow> i \<noteq> 0 | PFloat r \<Rightarrow> r \<noteq> 0
      | PBool b \<Rightarrow> b | PNone \<Rightarrow> False)"

text \<open>
  The text that \<open>format_value\<close> returns, by how it is made: \<open>repr(valor)\<close>, one of the
  names \<open>True\<close> and \<open>False\<close>, or \<open>str(valor)\<close>.
\<close>

datatype py_expr = Repr pyval | Name_True | Name_False | Str_of pyval

definition format_value :: "pyval \<Rightarrow> pyval \<Rightarrow> py_expr" where
  "format_value v tipo =
     (if tipo = PStr ''STRING'' then Repr v
      else if tipo = PStr ''BOOLEAN'' then (if py_truth v then Name_True else Name_False)
      else Str_of v)"

subsection \<open>\<open>generate_python_from_ir\<close>\<close>

text \<open>
  A line of the generated code, by its template: the heading comment, \<open>nombre = {}\<close>,
  \<open>nombre["clave"] = valor_fmt\<close>, \<open>nombre = []\<close> and \<open>nombre.append(valor_fmt)\<close>.
\<close>

datatype py_stmt =
    Comment
  | Assign_dict pyval
  | Set_item pyval pyval py_expr
  | Assign_list pyval
  | Append pyval py_expr

text \<open>
  The body of the loop. \<open>args[0]\<close> of an empty list raises IndexError; unpacking
  \<open>nombre, clave, tipo, valor = args\<close> raises ValueError unless there are four arguments
  (three for \<open>IR_APPEND_LIST\<close>). An instruction with another opcode adds no line.
\<close>

definition emit_instr :: "instr \<Rightarrow> py_error + py_stmt list" where
  "emit_instr x =
     (if opcode x = ''IR_CREATE_OBJECT'' then
        (case args x of [] \<Rightarrow> Inl IndexError | n # _ \<Rightarrow> Inr [Assign_dict n])
      else if opcode x = ''IR_SET_PROPERTY'' then
        (case args x of
           [n, k, tipo, v] \<Rightarrow> Inr [Set_item n k (format_value v tipo)]
         | _ \<Rightarrow> Inl ValueError)
      else if opcode x = ''IR_CREATE_LIST'' then
        (case args x of [] \<Rightarrow> Inl IndexError | n # _ \<Rightarrow> Inr [Assign_list n])
      else if opcode x = ''IR_APPEND_LIST'' then
        (case args x of
           [n, tipo, v] \<Rightarrow> Inr [Append n (format_value v tipo)]
         | _ \<Rightarrow> Inl ValueError)
      else Inr [])"

fun generate_lines :: "instr list \<Rightarrow> py_stmt list \<Rightarrow> py_error + py_stmt list" where
  "generate_lines [] python_code = Inr python_code"
| "generate_lines (x # xs) python_code =
     (case emit_instr x of
        Inl e \<Rightarrow> Inl e
      | Inr ls \<Rightarrow> generate_lines xs (python_code @ ls))"

definition generate_python_from_ir :: "instr list \<Rightarrow> py_error + py_stmt list" where
  "generate_python_from_ir ir_instructions0 = generate_lines ir_instructions0 [Comment]"

subsection \<open>The text pasted into a line\<close>

text \<open>
  The templates are f-strings: \<open>{nombre}\<close> and \<open>{clave}\<close> paste \<open>str\<close> of the value, which
  for a string is the string itself, for an integer its decimal digits, for a boolean
  \<open>True\<close> or \<open>False\<close> and for \<open>None\<close> the word \<open>None\<close>. The digits of a float are not
  described here (\<open>None\<close>).
\<close>

definition digit_char :: "nat \<Rightarrow> char" where
  "digit_char d = ''0123456789'' ! d"

fun str_nat :: "nat \<Rightarrow> string" where
  "str_nat n = (if n < 10 then [digit_char n] else str_nat (n div 10) @ [digit_char (n mod 10)])"

declare str_nat.simps [simp del]

definition py_str :: "pyval \<Rightarrow> string option" where
  "py_str v =
     (case v of
        PStr s \<Rightarrow> Some s
      | PInt i \<Rightarrow> Some (if i < 0 then CHR ''-'' # str_nat (nat (- i)) else str_nat (nat i))
      | PBool b \<Rightarrow> Some (if b then ''True'' else ''False'')
      | PNone \<Rightarrow> Some ''None''
      | PFloat r \<Rightarrow> None)"

subsection \<open>Running the generated code\<close>

text \<open>
  The tests run the generated code with \<open>exec(code, {}, env)\<close> and read the variables
  from \<open>env\<close>. The code is Python text, and the templates paste names, keys and
  \<open>str(valor)\<close> into it as they are; what a line does is described here for the lines
  of the following fragment, and for no other line.

  \<^item> The text in the place of \<open>nombre\<close> is an identifier of ASCII letters, digits and
    underscores that is not a reserved word, possibly followed by blanks. It names the
    variable that is the identifier (\<open>o  = {}\<close>, \<open>o ["k"] = 1\<close> and \<open>o .append(1)\<close> work
    on \<open>o\<close>). The reserved words are the keywords of Python and the two names
    \<open>__debug__\<close>, which cannot be assigned, and \<open>__builtins__\<close>, which \<open>exec\<close> binds.
  \<^item> The text in the place of \<open>clave\<close> has printable ASCII characters only and neither a
    double quote nor a backslash. Between the quotes of the template it is a string
    literal that denotes this text: the key of \<open>o["1"]\<close> is the string \<open>1\<close>, also when
    \<open>clave\<close> was the integer.
  \<^item> The text in the place of \<open>valor_fmt\<close> is a literal: \<open>repr\<close> of a value reads back as
    the value, \<open>True\<close> and \<open>False\<close> are the booleans, and \<open>str\<close> of a number, a boolean
    or \<open>None\<close> reads back as the value. \<open>str\<close> of a string is the string pasted as code;
    it is not in the fragment.
\<close>

definition ident_start :: "char \<Rightarrow> bool" where
  "ident_start c =
     (let n = of_char c :: nat in c = CHR ''_'' \<or> (65 \<le> n \<and> n \<le> 90) \<or> (97 \<le> n \<and> n \<le> 122))"

definition ident_char :: "char \<Rightarrow> bool" where
  "ident_char c = (let n = of_char c :: nat in ident_start c \<or> (48 \<le> n \<and> n \<le> 57))"

definition py_reserved :: "string list" where
  "py_reserved =
     [''False'', ''None'', ''True'', ''and'', ''as'', ''assert'', ''async'', ''await'',
      ''break'', ''class'', ''continue'', ''def'', ''del'', ''elif'', ''else'', ''except'',
      ''finally'', ''for'', ''from'', ''global'', ''if'', ''import'', ''in'', ''is'',
      ''lambda'', ''nonlocal'', ''not'', ''or'', ''pass'', ''raise'', ''return'', ''try'',
      ''while'', ''with'', ''yield'', ''__debug__'', ''__builtins__'']"

definition py_name :: "string \<Rightarrow> bool" where
  "py_name s =
     (case s of
        [] \<Rightarrow> False
      | c # cs \<Rightarrow> ident_start c \<and> list_all ident_char cs \<and> s \<notin> set py_reserved)"

definition strip_blanks :: "string \<Rightarrow> string" where
  "strip_blanks s = rev (dropWhile (\<lambda>c. c = CHR 0x20) (rev s))"

definition variable_of :: "pyval \<Rightarrow> string option" where
  "variable_of nombre0 =
     (case py_str nombre0 of
        None \<Rightarrow> None
      | Some s \<Rightarrow> if py_name (strip_blanks s) then Some (strip_blanks s) else None)"

definition key_char :: "char \<Rightarrow> bool" where
  "key_char c =
     (let n = of_char c :: nat in 32 \<le> n \<and> n \<le> 126 \<and> c \<noteq> CHR 0x22 \<and> c \<noteq> CHR 0x5C)"

definition key_of :: "pyval \<Rightarrow> string option" where
  "key_of clave0 =
     (case py_str clave0 of
        None \<Rightarrow> None
      | Some s \<Rightarrow> if list_all key_char s then Some s else None)"

definition eval_expr :: "py_expr \<Rightarrow> pyval option" where
  "eval_expr e =
     (case e of
        Repr v \<Rightarrow> Some v
      | Name_True \<Rightarrow> Some (PBool True)
      | Name_False \<Rightarrow> Some (PBool False)
      | Str_of v \<Rightarrow> (case v of PStr _ \<Rightarrow> None | _ \<Rightarrow> Some v))"

text \<open>
  A line of the fragment, read: the variable, the key and the value that it works on.
  \<open>read_stmt\<close> is \<open>None\<close> for a line outside the fragment.
\<close>

datatype stmt =
    Skip
  | New_dict string
  | Store string string pyval
  | New_list string
  | Push string pyval

definition read_stmt :: "py_stmt \<Rightarrow> stmt option" where
  "read_stmt l =
     (case l of
        Comment \<Rightarrow> Some Skip
      | Assign_dict n \<Rightarrow> map_option New_dict (variable_of n)
      | Set_item n k e \<Rightarrow>
          (case variable_of n of
             None \<Rightarrow> None
           | Some x \<Rightarrow>
               (case key_of k of
                  None \<Rightarrow> None
                | Some t \<Rightarrow> map_option (Store x t) (eval_expr e)))
      | Assign_list n \<Rightarrow> map_option New_list (variable_of n)
      | Append n e \<Rightarrow>
          (case variable_of n of
             None \<Rightarrow> None
           | Some x \<Rightarrow> map_option (Push x) (eval_expr e)))"

text \<open>
  The variables of \<open>env\<close>: a variable holds a dictionary from keys to values or a list of
  values. A line raises (\<open>None\<close>) when its variable is unbound, on an item assignment to
  a list and on \<open>append\<close> to a dictionary.
\<close>

datatype entity = Obj "string \<rightharpoonup> pyval" | Lst "pyval list"

type_synonym env = "string \<rightharpoonup> entity"

fun exec_stmt :: "env \<Rightarrow> stmt \<Rightarrow> env option" where
  "exec_stmt env Skip = Some env"
| "exec_stmt env (New_dict x) = Some (env(x \<mapsto> Obj Map.empty))"
| "exec_stmt env (New_list x) = Some (env(x \<mapsto> Lst []))"
| "exec_stmt env (Store x k v) =
     (case env x of
        Some (Obj m) \<Rightarrow> Some (env(x \<mapsto> Obj (m(k \<mapsto> v))))
      | _ \<Rightarrow> None)"
| "exec_stmt env (Push x v) =
     (case env x of
        Some (Lst l) \<Rightarrow> Some (env(x \<mapsto> Lst (l @ [v])))
      | _ \<Rightarrow> None)"

fun exec_program :: "env \<Rightarrow> stmt list \<Rightarrow> env option" where
  "exec_program env [] = Some env"
| "exec_program env (s # ss) =
     (case exec_stmt env s of None \<Rightarrow> None | Some env' \<Rightarrow> exec_program env' ss)"

text \<open>
  What running the code comes to: the final variables, an exception, or nothing said
  because a line is outside the fragment.
\<close>

datatype outcome = Final env | Raises | Outside

definition exec_code :: "py_stmt list \<Rightarrow> outcome" where
  "exec_code python_code =
     (case those (map read_stmt python_code) of
        None \<Rightarrow> Outside
      | Some p \<Rightarrow> (case exec_program Map.empty p of None \<Rightarrow> Raises | Some env \<Rightarrow> Final env))"

text \<open>
  Replaying an instruction sequence through the emitter: generate the code and run it.
  An exception of the emitter itself is an exception of the replay.
\<close>

definition replay :: "instr list \<Rightarrow> outcome" where
  "replay xs =
     (case generate_python_from_ir xs of
        Inl e \<Rightarrow> Raises
      | Inr python_code \<Rightarrow> exec_code python_code)"


subsection \<open>Vocabulary for the replay's properties\<close>

text \<open>
  The shapes of the IR that the builder produces, as far as the emitter's text depends
  on them: every entity name is a string that is a Python variable name, every property
  key is a string of printable characters without double quote and backslash, and a
  native value that is a string stands under the tag \<open>STRING\<close> or \<open>BOOLEAN\<close>, so that no
  string is pasted as code.
\<close>

definition names_ok :: "instr list \<Rightarrow> bool" where
  "names_ok xs =
     list_all (\<lambda>x. case args x of
                      [] \<Rightarrow> True
                    | a # _ \<Rightarrow> (case a of PStr n \<Rightarrow> py_name n | _ \<Rightarrow> False)) xs"

definition keys_ok :: "instr list \<Rightarrow> bool" where
  "keys_ok xs =
     list_all (\<lambda>x. is_set x \<longrightarrow>
                 (case args x of
                    _ # k # _ \<Rightarrow> (case k of PStr s \<Rightarrow> list_all key_char s | _ \<Rightarrow> False)
                  | _ \<Rightarrow> True)) xs"

definition value_ok :: "pyval \<Rightarrow> pyval \<Rightarrow> bool" where
  "value_ok tipo v =
     (case v of PStr _ \<Rightarrow> tipo = PStr ''STRING'' \<or> tipo = PStr ''BOOLEAN'' | _ \<Rightarrow> True)"

definition values_ok :: "instr list \<Rightarrow> bool" where
  "values_ok xs =
     list_all (\<lambda>x. if opcode x = ''IR_SET_PROPERTY'' then
                      (case args x of [_, _, tipo, v] \<Rightarrow> value_ok tipo v | _ \<Rightarrow> True)
                    else if opcode x = ''IR_APPEND_LIST'' then
                      (case args x of [_, tipo, v] \<Rightarrow> value_ok tipo v | _ \<Rightarrow> True)
                    else True) xs"





text \<open>
  For the proofs, the replay instruction by instruction, for names and keys that are
  strings: the variable that the line of an instruction works on, and the effect of the
  line on the content of its variable (\<open>None\<close>: unbound); the outer \<open>None\<close> says that
  the line does not run.
\<close>

definition target :: "instr \<Rightarrow> string option" where
  "target x = (case args x of PStr n # _ \<Rightarrow> Some n | _ \<Rightarrow> None)"

definition eff :: "instr \<Rightarrow> entity option \<Rightarrow> entity option option" where
  "eff x e =
     (if opcode x = ''IR_CREATE_OBJECT'' then Some (Some (Obj Map.empty))
      else if opcode x = ''IR_SET_PROPERTY'' then
        (case args x of
           [n, PStr k, tipo, v] \<Rightarrow>
             (case eval_expr (format_value v tipo) of
                None \<Rightarrow> None
              | Some w \<Rightarrow>
                  (case e of Some (Obj m) \<Rightarrow> Some (Some (Obj (m(k \<mapsto> w)))) | _ \<Rightarrow> None))
         | _ \<Rightarrow> None)
      else if opcode x = ''IR_CREATE_LIST'' then Some (Some (Lst []))
      else if opcode x = ''IR_APPEND_LIST'' then
        (case args x of
           [n, tipo, v] \<Rightarrow>
             (case eval_expr (format_value v tipo) of
                None \<Rightarrow> None
              | Some w \<Rightarrow>
                  (case e of Some (Lst l) \<Rightarrow> Some (Some (Lst (l @ [w]))) | _ \<Rightarrow> None))
         | _ \<Rightarrow> None)
      else None)"

definition instr_step :: "env \<Rightarrow> instr \<Rightarrow> env option" where
  "instr_step env x =
     (case target x of
        None \<Rightarrow> None
      | Some n \<Rightarrow> (case eff x (env n) of None \<Rightarrow> None | Some e' \<Rightarrow> Some (env(n := e'))))"

fun run :: "env \<Rightarrow> instr list \<Rightarrow> env option" where
  "run env [] = Some env"
| "run env (x # xs) = (case instr_step env x of None \<Rightarrow> None | Some env' \<Rightarrow> run env' xs)"



subsection \<open>Example instruction sequences for the replay\<close>





section \<open>Properties of the optimizer\<close>

subsection \<open>Phase 1 as a list function\<close>

lemma last_pos_None: "last_pos k xs = None \<longleftrightarrow> \<not> (\<exists>y \<in> set xs. is_set y \<and> write_key y = Some k)"
  by (induction xs) (auto split: option.splits)

lemma sets_ok_Cons: "sets_ok (x # xs) \<longleftrightarrow> (is_set x \<longrightarrow> 2 \<le> length (args x)) \<and> sets_ok xs"
  by (simp add: sets_ok_def)

lemma args_two: "2 \<le> length (args x) \<Longrightarrow> \<exists>a b r. args x = a # b # r"
  by (cases "args x"; cases "tl (args x)") auto

lemma record_last_writes_ok:
  "sets_ok xs \<Longrightarrow>
     record_last_writes i xs lw =
       Inr (\<lambda>k. case last_pos k xs of None \<Rightarrow> lw k | Some j \<Rightarrow> Some (i + j))"
proof (induction xs arbitrary: i lw)
  case Nil
  then show ?case by simp
next
  case (Cons x xs)
  from Cons.prems have ok: "sets_ok xs" by (simp add: sets_ok_Cons)
  show ?case
  proof (cases "is_set x")
    case False
    then show ?thesis using Cons.IH[OF ok, of "Suc i" lw]
      by (auto simp: is_set_def fun_eq_iff split: option.splits)
  next
    case True
    with Cons.prems have "2 \<le> length (args x)" by (simp add: sets_ok_Cons)
    then obtain a b r where ab: "args x = a # b # r"
      using args_two by blast
    let ?lw = "lw((dict_key a, dict_key b) \<mapsto> i)"
    have "record_last_writes i (x # xs) lw = record_last_writes (Suc i) xs ?lw"
      using True ab by (simp add: is_set_def)
    also have "\<dots> = Inr (\<lambda>k. case last_pos k xs of None \<Rightarrow> ?lw k | Some j \<Rightarrow> Some (Suc i + j))"
      by (rule Cons.IH[OF ok])
    also have "(\<lambda>k. case last_pos k xs of None \<Rightarrow> ?lw k | Some j \<Rightarrow> Some (Suc i + j)) =
        (\<lambda>k. case last_pos k (x # xs) of None \<Rightarrow> lw k | Some j \<Rightarrow> Some (i + j))"
      using True ab by (auto simp: fun_eq_iff write_key_def split: option.splits)
    finally show ?thesis .
  qed
qed

lemma record_last_writes_bad:
  "\<not> sets_ok xs \<Longrightarrow> record_last_writes i xs lw = Inl IndexError"
proof (induction xs arbitrary: i lw)
  case Nil
  then show ?case by (simp add: sets_ok_def)
next
  case (Cons x xs)
  then show ?case
    by (cases "args x"; cases "tl (args x)") (auto simp: sets_ok_Cons is_set_def)
qed

lemma keep_last_writes_ok:
  "sets_ok xs \<Longrightarrow> (\<And>k j. last_pos k xs = Some j \<Longrightarrow> lw k = Some (i + j)) \<Longrightarrow>
     keep_last_writes lw i xs acc = Inr (acc @ last_only xs)"
proof (induction xs arbitrary: i acc)
  case Nil
  then show ?case by simp
next
  case (Cons x xs)
  from Cons.prems have ok: "sets_ok xs" by (simp add: sets_ok_Cons)
  have inv: "lw k = Some (Suc i + j)" if "last_pos k xs = Some j" for k j
    using Cons.prems(2)[of k "Suc j"] that by simp
  show ?case
  proof (cases "is_set x")
    case False
    then show ?thesis using Cons.IH[OF ok, of "Suc i" "acc @ [x]"] inv
      by (auto simp: is_set_def)
  next
    case True
    with Cons.prems have "2 \<le> length (args x)" by (simp add: sets_ok_Cons)
    then obtain a b r where ab: "args x = a # b # r"
      using args_two by blast
    let ?k = "(dict_key a, dict_key b)"
    have wk: "write_key x = Some ?k" by (simp add: write_key_def ab)
    show ?thesis
    proof (cases "last_pos ?k xs")
      case None
      then have "lw ?k = Some i" using Cons.prems(2)[of ?k 0] True wk by simp
      moreover have "\<not> (\<exists>y \<in> set xs. is_set y \<and> write_key y = write_key x)"
        using None wk by (simp add: last_pos_None)
      ultimately show ?thesis
        using True ab Cons.IH[OF ok, of "Suc i" "acc @ [x]"] inv
        by (auto simp: is_set_def)
    next
      case (Some j)
      then have "lw ?k = Some (Suc i + j)" using inv by simp
      moreover have "\<exists>y \<in> set xs. is_set y \<and> write_key y = write_key x"
        using Some wk last_pos_None[of ?k xs] by auto
      ultimately show ?thesis
        using True ab Cons.IH[OF ok, of "Suc i" acc] inv
        by (auto simp: is_set_def)
    qed
  qed
qed

lemma remove_redundant_sets_eq:
  "remove_redundant_sets xs = (if sets_ok xs then Inr (last_only xs) else Inl IndexError)"
proof (cases "sets_ok xs")
  case True
  then show ?thesis
    by (simp add: remove_redundant_sets_def record_last_writes_ok keep_last_writes_ok)
next
  case False
  then show ?thesis
    by (simp add: remove_redundant_sets_def record_last_writes_bad)
qed

lemma classify_eq:
  "classify xs (cs, os, ts) =
     (cs @ filter is_creation xs, os @ filter is_operation xs,
      ts @ filter (\<lambda>x. \<not> known_opcode x) xs)"
  by (induction xs arbitrary: cs os ts)
     (auto simp: is_creation_def is_operation_def known_opcode_def)

lemma has_args_Cons: "has_args (x # xs) \<longleftrightarrow> args x \<noteq> [] \<and> has_args xs"
  by (simp add: has_args_def)

lemma bucket_ops_ok:
  "has_args xs \<Longrightarrow>
     bucket_ops xs m =
       Inr (\<lambda>k. case filter (\<lambda>x. entity_key x = Some k) xs of
                  [] \<Rightarrow> m k
                | b \<Rightarrow> Some ((case m k of None \<Rightarrow> [] | Some b0 \<Rightarrow> b0) @ b))"
proof (induction xs arbitrary: m)
  case Nil
  then show ?case by simp
next
  case (Cons x xs)
  then obtain e r where ex: "args x = e # r" and ok: "has_args xs"
    by (cases "args x") (auto simp: has_args_Cons)
  let ?k = "dict_key e"
  let ?m = "m(?k \<mapsto> (case m ?k of None \<Rightarrow> [] | Some b0 \<Rightarrow> b0) @ [x])"
  have "bucket_ops (x # xs) m = bucket_ops xs ?m"
    using ex by (simp split: option.splits)
  also have "\<dots> = Inr (\<lambda>k. case filter (\<lambda>x. entity_key x = Some k) xs of
                  [] \<Rightarrow> ?m k
                | b \<Rightarrow> Some ((case ?m k of None \<Rightarrow> [] | Some b0 \<Rightarrow> b0) @ b))"
    by (rule Cons.IH[OF ok])
  also have "(\<lambda>k. case filter (\<lambda>x. entity_key x = Some k) xs of
                  [] \<Rightarrow> ?m k
                | b \<Rightarrow> Some ((case ?m k of None \<Rightarrow> [] | Some b0 \<Rightarrow> b0) @ b)) =
      (\<lambda>k. case filter (\<lambda>x. entity_key x = Some k) (x # xs) of
                  [] \<Rightarrow> m k
                | b \<Rightarrow> Some ((case m k of None \<Rightarrow> [] | Some b0 \<Rightarrow> b0) @ b))"
    using ex by (auto simp: fun_eq_iff entity_key_def split: list.splits option.splits)
  finally show ?case .
qed

lemma bucket_ops_bad: "\<not> has_args xs \<Longrightarrow> bucket_ops xs m = Inl IndexError"
proof (induction xs arbitrary: m)
  case Nil
  then show ?case by (simp add: has_args_def)
next
  case (Cons x xs)
  then show ?case
    by (cases "args x") (auto simp: has_args_Cons split: option.splits)
qed

lemma emit_creations_ok:
  "has_args cs \<Longrightarrow>
     emit_creations m cs (g, p) =
       Inr (g @ concat (map (\<lambda>c. c # (case m (the (entity_key c)) of None \<Rightarrow> [] | Some b \<Rightarrow> b)) cs),
            p \<union> {k. m k \<noteq> None \<and> (\<exists>c \<in> set cs. entity_key c = Some k)})"
proof (induction cs arbitrary: g p)
  case Nil
  then show ?case by simp
next
  case (Cons c cs)
  then obtain e r where ex: "args c = e # r" and ok: "has_args cs"
    by (cases "args c") (auto simp: has_args_Cons)
  have ek: "entity_key c = Some (dict_key e)" by (simp add: entity_key_def ex)
  show ?case
  proof (cases "m (dict_key e)")
    case None
    have "p \<union> {k. m k \<noteq> None \<and> (\<exists>c \<in> set cs. entity_key c = Some k)} =
          p \<union> {k. m k \<noteq> None \<and> (\<exists>c' \<in> set (c # cs). entity_key c' = Some k)}"
      using None ek by auto
    then show ?thesis using None ex ek Cons.IH[OF ok, of "g @ [c]" p] by simp
  next
    case (Some b)
    have "insert (dict_key e) p \<union> {k. m k \<noteq> None \<and> (\<exists>c \<in> set cs. entity_key c = Some k)} =
          p \<union> {k. m k \<noteq> None \<and> (\<exists>c' \<in> set (c # cs). entity_key c' = Some k)}"
      using Some ek by auto
    then show ?thesis
      using Some ex ek Cons.IH[OF ok, of "g @ c # b" "insert (dict_key e) p"] by simp
  qed
qed

lemma emit_creations_bad: "\<not> has_args cs \<Longrightarrow> emit_creations m cs (g, p) = Inl IndexError"
proof (induction cs arbitrary: g p)
  case Nil
  then show ?case by (simp add: has_args_def)
next
  case (Cons c cs)
  then show ?case
    by (cases "args c") (auto simp: has_args_Cons split: option.splits)
qed

lemma append_orphans_ok:
  "has_args xs \<Longrightarrow>
     append_orphans p xs g = Inr (g @ filter (\<lambda>x. the (entity_key x) \<notin> p) xs)"
proof (induction xs arbitrary: g)
  case Nil
  then show ?case by simp
next
  case (Cons x xs)
  then obtain e r where ex: "args x = e # r" and ok: "has_args xs"
    by (cases "args x") (auto simp: has_args_Cons)
  show ?case using ex Cons.IH[OF ok] by (simp add: entity_key_def)
qed

lemma has_args_filter: "has_args xs \<Longrightarrow> has_args (filter P xs)"
  by (simp add: has_args_def)

lemma has_args_entity_key: "has_args xs \<Longrightarrow> x \<in> set xs \<Longrightarrow> \<exists>k. entity_key x = Some k"
  by (cases "args x") (auto simp: has_args_def entity_key_def)

lemma group_instructions_unknown:
  "\<exists>x \<in> set xs. \<not> known_opcode x \<Longrightarrow> group_instructions xs = Inr xs"
  by (auto simp: group_instructions_def classify_eq filter_empty_conv)

lemma group_instructions_bad:
  assumes known: "\<forall>x \<in> set xs. known_opcode x" and bad: "\<not> has_args xs"
  shows "group_instructions xs = Inl IndexError"
proof (cases "has_args (filter is_operation xs)")
  case False
  then show ?thesis using known
    by (simp add: group_instructions_def classify_eq filter_empty_conv bucket_ops_bad)
next
  case True
  have "\<not> has_args (filter is_creation xs)"
    using bad True known by (auto simp: has_args_def known_opcode_def)
  then show ?thesis using known True
    by (simp add: group_instructions_def classify_eq filter_empty_conv bucket_ops_ok
        emit_creations_bad)
qed

lemma group_instructions_ok:
  assumes known: "\<forall>x \<in> set xs. known_opcode x" and ok: "has_args xs"
  shows "group_instructions xs = Inr (grouped xs)"
proof -
  define cs where "cs = filter is_creation xs"
  define os where "os = filter is_operation xs"
  define m where "m = (\<lambda>k. case filter (\<lambda>x. entity_key x = Some k) os of
                  [] \<Rightarrow> None | b \<Rightarrow> Some b)"
  define p where "p = {k. m k \<noteq> None \<and> (\<exists>c \<in> set cs. entity_key c = Some k)}"
  have okc: "has_args cs" and oko: "has_args os"
    using ok by (simp_all add: cs_def os_def has_args_filter)
  have m: "bucket_ops os Map.empty = Inr m"
    using bucket_ops_ok[OF oko, of Map.empty] by (simp add: m_def cong: list.case_cong)
  have bucket: "(case m (the (entity_key c)) of None \<Rightarrow> [] | Some b \<Rightarrow> b) = bucket_of c xs"
    if cin: "c \<in> set xs" for c
  proof -
    obtain k where k: "entity_key c = Some k" using has_args_entity_key[OF ok cin] by blast
    show ?thesis
      by (simp add: k m_def os_def bucket_of_def conj_commute split: list.splits)
  qed
  have mapeq: "map (\<lambda>c. c # (case m (the (entity_key c)) of None \<Rightarrow> [] | Some b \<Rightarrow> b)) cs =
      map (\<lambda>c. c # bucket_of c xs) cs"
    by (rule map_cong[OF refl]) (simp add: bucket cs_def)
  have emit: "emit_creations m cs ([], {}) = Inr (concat (map (\<lambda>c. c # bucket_of c xs) cs), p)"
    using emit_creations_ok[OF okc, of m "[]" "{}"] by (simp only: mapeq append_Nil Un_empty_left p_def)
  have eq: "(is_operation x \<and> the (entity_key x) \<notin> p) =
        (is_operation x \<and> \<not> (\<exists>c \<in> set xs. is_creation c \<and> entity_key c = entity_key x))"
    if xin: "x \<in> set xs" for x
  proof (cases "is_operation x")
    case False
    then show ?thesis by simp
  next
    case True
    obtain k where k: "entity_key x = Some k" using has_args_entity_key[OF ok xin] by blast
    have "x \<in> set (filter (\<lambda>x. entity_key x = Some k) os)" using xin True k by (simp add: os_def)
    then have "filter (\<lambda>x. entity_key x = Some k) os \<noteq> []"
      by (metis empty_iff list.set(1))
    then have "m k \<noteq> None" by (simp add: m_def split: list.splits)
    then show ?thesis using True k by (auto simp: p_def cs_def)
  qed
  have orph: "filter (\<lambda>x. the (entity_key x) \<notin> p) os = orphans xs"
  proof -
    have "filter (\<lambda>x. the (entity_key x) \<notin> p) os =
          filter (\<lambda>x. is_operation x \<and> the (entity_key x) \<notin> p) xs"
      by (simp only: os_def filter_filter)
    also have "\<dots> = orphans xs"
      unfolding orphans_def by (rule filter_cong[OF refl]) (rule eq)
    finally show ?thesis .
  qed
  have others: "filter (\<lambda>x. \<not> known_opcode x) xs = []"
    using known by (simp add: filter_empty_conv)
  have "group_instructions xs = append_orphans p os (concat (map (\<lambda>c. c # bucket_of c xs) cs))"
    by (simp add: group_instructions_def classify_eq others m emit flip: cs_def os_def)
  also have "\<dots> = Inr (concat (map (\<lambda>c. c # bucket_of c xs) cs) @ filter (\<lambda>x. the (entity_key x) \<notin> p) os)"
    by (rule append_orphans_ok[OF oko])
  finally show ?thesis by (simp only: orph grouped_def cs_def)
qed

subsection \<open>Claims about phase 1\<close>

lemma overwritten_Cons_0:
  "overwritten (x # xs) 0 = (\<exists>y \<in> set xs. is_set y \<and> write_key y = write_key x)"
proof
  assume "overwritten (x # xs) 0"
  then obtain j where "0 < j" "j < Suc (length xs)" "is_set ((x # xs) ! j)"
    "write_key ((x # xs) ! j) = write_key x"
    by (auto simp: overwritten_def)
  then show "\<exists>y \<in> set xs. is_set y \<and> write_key y = write_key x"
    by (cases j) auto
next
  assume "\<exists>y \<in> set xs. is_set y \<and> write_key y = write_key x"
  then obtain j where "j < length xs" "is_set (xs ! j)" "write_key (xs ! j) = write_key x"
    by (auto simp: in_set_conv_nth)
  then show "overwritten (x # xs) 0"
    unfolding overwritten_def by (intro exI[of _ "Suc j"]) simp
qed

lemma overwritten_Cons_Suc: "overwritten (x # xs) (Suc i) = overwritten xs i"
proof
  assume "overwritten (x # xs) (Suc i)"
  then obtain j where "Suc i < j" "j < Suc (length xs)" "is_set ((x # xs) ! j)"
    "write_key ((x # xs) ! j) = write_key (xs ! i)"
    by (auto simp: overwritten_def)
  then show "overwritten xs i"
    unfolding overwritten_def by (cases j) auto
next
  assume "overwritten xs i"
  then obtain j where "i < j" "j < length xs" "is_set (xs ! j)"
    "write_key (xs ! j) = write_key (xs ! i)"
    by (auto simp: overwritten_def)
  then show "overwritten (x # xs) (Suc i)"
    unfolding overwritten_def by (intro exI[of _ "Suc j"]) simp
qed

lemma last_only_nths:
  "last_only xs = nths xs {i. \<not> (is_set (xs ! i) \<and> overwritten xs i)}"
proof (induction xs)
  case Nil
  then show ?case by simp
next
  case (Cons x xs)
  show ?case
    by (simp add: nths_Cons overwritten_Cons_0 overwritten_Cons_Suc Cons.IH)
qed

text \<open>
  Claim C2. Phase 1 keeps every instruction that is not an \<open>IR_SET_PROPERTY\<close>, and keeps
  an \<open>IR_SET_PROPERTY\<close> exactly when no later \<open>IR_SET_PROPERTY\<close> writes the same
  (object, key) pair; what is kept stays in its original order (\<open>nths\<close> selects by index).
  This holds whenever every \<open>IR_SET_PROPERTY\<close> carries its object name and key; otherwise
  reading \<open>args[0]\<close> or \<open>args[1]\<close> raises IndexError. On the three-instruction example
  the optimizer returns the creation and the second write.
\<close>

theorem remove_redundant_sets_keeps_last_write:
  "(sets_ok xs \<longrightarrow>
      remove_redundant_sets xs =
        Inr (nths xs {i. \<not> (is_set (xs ! i) \<and> overwritten xs i)})) \<and>
   (\<not> sets_ok xs \<longrightarrow> remove_redundant_sets xs = Inl IndexError) \<and>
   optimize_ir
     [mk ''IR_CREATE_OBJECT'' [PStr ''o''],
      mk ''IR_SET_PROPERTY'' [PStr ''o'', PStr ''k'', t, PInt 1],
      mk ''IR_SET_PROPERTY'' [PStr ''o'', PStr ''k'', t', PInt 2]] =
     Inr [mk ''IR_CREATE_OBJECT'' [PStr ''o''],
          mk ''IR_SET_PROPERTY'' [PStr ''o'', PStr ''k'', t', PInt 2]]"
proof (intro conjI impI)
  show "remove_redundant_sets xs = Inr (nths xs {i. \<not> (is_set (xs ! i) \<and> overwritten xs i)})"
    if "sets_ok xs"
    using that by (simp add: remove_redundant_sets_eq last_only_nths)
  show "remove_redundant_sets xs = Inl IndexError" if "\<not> sets_ok xs"
    using that by (simp add: remove_redundant_sets_eq)
  show "optimize_ir
     [mk ''IR_CREATE_OBJECT'' [PStr ''o''],
      mk ''IR_SET_PROPERTY'' [PStr ''o'', PStr ''k'', t, PInt 1],
      mk ''IR_SET_PROPERTY'' [PStr ''o'', PStr ''k'', t', PInt 2]] =
     Inr [mk ''IR_CREATE_OBJECT'' [PStr ''o''],
          mk ''IR_SET_PROPERTY'' [PStr ''o'', PStr ''k'', t', PInt 2]]"
    by (simp add: optimize_ir_def remove_redundant_sets_def group_instructions_def mk_def)
qed

theorem remove_redundant_sets_keeps_last_write_witness:
  "sets_ok [mk ''IR_SET_PROPERTY'' [PStr ''o'', PStr ''k'', PStr ''NUMBER'', PInt 1],
            mk ''IR_APPEND_LIST'' [PStr ''l'', PStr ''NUMBER'', PInt 7],
            mk ''IR_SET_PROPERTY'' [PStr ''o'', PStr ''k'', PStr ''NUMBER'', PInt 2]] \<and>
   remove_redundant_sets
     [mk ''IR_SET_PROPERTY'' [PStr ''o'', PStr ''k'', PStr ''NUMBER'', PInt 1],
      mk ''IR_APPEND_LIST'' [PStr ''l'', PStr ''NUMBER'', PInt 7],
      mk ''IR_SET_PROPERTY'' [PStr ''o'', PStr ''k'', PStr ''NUMBER'', PInt 2]] =
     Inr [mk ''IR_APPEND_LIST'' [PStr ''l'', PStr ''NUMBER'', PInt 7],
          mk ''IR_SET_PROPERTY'' [PStr ''o'', PStr ''k'', PStr ''NUMBER'', PInt 2]] \<and>
   nths [mk ''IR_SET_PROPERTY'' [PStr ''o'', PStr ''k'', PStr ''NUMBER'', PInt 1],
         mk ''IR_APPEND_LIST'' [PStr ''l'', PStr ''NUMBER'', PInt 7],
         mk ''IR_SET_PROPERTY'' [PStr ''o'', PStr ''k'', PStr ''NUMBER'', PInt 2]]
     {i. \<not> (is_set ([mk ''IR_SET_PROPERTY'' [PStr ''o'', PStr ''k'', PStr ''NUMBER'', PInt 1],
         mk ''IR_APPEND_LIST'' [PStr ''l'', PStr ''NUMBER'', PInt 7],
         mk ''IR_SET_PROPERTY'' [PStr ''o'', PStr ''k'', PStr ''NUMBER'', PInt 2]] ! i) \<and>
        overwritten [mk ''IR_SET_PROPERTY'' [PStr ''o'', PStr ''k'', PStr ''NUMBER'', PInt 1],
         mk ''IR_APPEND_LIST'' [PStr ''l'', PStr ''NUMBER'', PInt 7],
         mk ''IR_SET_PROPERTY'' [PStr ''o'', PStr ''k'', PStr ''NUMBER'', PInt 2]] i)} =
     [mk ''IR_APPEND_LIST'' [PStr ''l'', PStr ''NUMBER'', PInt 7],
      mk ''IR_SET_PROPERTY'' [PStr ''o'', PStr ''k'', PStr ''NUMBER'', PInt 2]]"
proof -
  let ?xs = "[mk ''IR_SET_PROPERTY'' [PStr ''o'', PStr ''k'', PStr ''NUMBER'', PInt 1],
      mk ''IR_APPEND_LIST'' [PStr ''l'', PStr ''NUMBER'', PInt 7],
      mk ''IR_SET_PROPERTY'' [PStr ''o'', PStr ''k'', PStr ''NUMBER'', PInt 2]]"
  have ok: "sets_ok ?xs" by (simp add: sets_ok_def mk_def)
  have run: "remove_redundant_sets ?xs =
     Inr [mk ''IR_APPEND_LIST'' [PStr ''l'', PStr ''NUMBER'', PInt 7],
          mk ''IR_SET_PROPERTY'' [PStr ''o'', PStr ''k'', PStr ''NUMBER'', PInt 2]]"
    by (simp add: remove_redundant_sets_def mk_def)
  from remove_redundant_sets_keeps_last_write[of ?xs] ok
  have "remove_redundant_sets ?xs = Inr (nths ?xs {i. \<not> (is_set (?xs ! i) \<and> overwritten ?xs i)})"
    by blast
  with run ok show ?thesis by simp
qed

subsection \<open>What phase 1 preserves\<close>

lemma last_only_subset: "set (last_only xs) \<subseteq> set xs"
  by (induction xs) auto

lemma last_only_keeps_non_set: "x \<in> set xs \<Longrightarrow> \<not> is_set x \<Longrightarrow> x \<in> set (last_only xs)"
  by (induction xs) auto

lemma filter_last_only: "(\<And>x. P x \<Longrightarrow> \<not> is_set x) \<Longrightarrow> filter P (last_only xs) = filter P xs"
  by (induction xs) auto

lemma is_creation_not_set: "is_creation x \<Longrightarrow> \<not> is_set x"
  by (auto simp: is_creation_def is_set_def)

lemma is_creation_not_operation: "is_creation x \<Longrightarrow> \<not> is_operation x"
  by (auto simp: is_creation_def is_operation_def)

lemma unknown_not_set: "\<not> known_opcode x \<Longrightarrow> \<not> is_set x"
  by (auto simp: known_opcode_def is_operation_def is_set_def)

lemma has_args_last_only: "has_args xs \<Longrightarrow> has_args (last_only xs)"
  using last_only_subset by (auto simp: has_args_def)

lemma known_last_only: "\<forall>x \<in> set xs. known_opcode x \<Longrightarrow> \<forall>x \<in> set (last_only xs). known_opcode x"
  using last_only_subset by auto

lemma optimize_ir_known:
  assumes "\<forall>x \<in> set xs. known_opcode x" "has_args xs" "sets_ok xs"
  shows "optimize_ir xs = Inr (grouped (last_only xs))"
proof (cases "xs = []")
  case True
  then show ?thesis by (simp add: optimize_ir_def grouped_def orphans_def)
next
  case False
  then show ?thesis
    using assms
    by (simp add: optimize_ir_def remove_redundant_sets_eq group_instructions_ok
        has_args_last_only known_last_only)
qed

lemma optimize_ir_unknown:
  assumes "\<exists>x \<in> set xs. \<not> known_opcode x"
  shows "optimize_ir xs = remove_redundant_sets xs"
proof -
  from assms obtain x where x: "x \<in> set xs" "\<not> known_opcode x" by blast
  then have ne: "xs \<noteq> []" by auto
  have "x \<in> set (last_only xs)"
    using x by (simp add: last_only_keeps_non_set unknown_not_set)
  then have "\<exists>x \<in> set (last_only xs). \<not> known_opcode x" using x by blast
  then have "group_instructions (last_only xs) = Inr (last_only xs)"
    by (rule group_instructions_unknown)
  then show ?thesis using ne
    by (simp add: optimize_ir_def remove_redundant_sets_eq)
qed

subsection \<open>Claims about the grouping and the fallback\<close>

text \<open>
  Claim C3. For a sequence of the four known opcodes (each instruction carrying its entity
  name, each \<open>IR_SET_PROPERTY\<close> also its key), the optimizer returns the creations in their
  original order, each followed at once by the surviving operations on its entity in their
  original relative order (\<open>bucket_of\<close> is a \<open>filter\<close> of the phase-1 output), and after
  them the surviving operations on entities that no instruction creates. On the
  interleaved example the writes of A follow A, the write of B follows B.
\<close>

theorem optimize_ir_groups_by_creation:
  "((\<forall>x \<in> set xs. known_opcode x) \<and> has_args xs \<and> sets_ok xs \<longrightarrow>
      optimize_ir xs =
        Inr (concat (map (\<lambda>c. c # bucket_of c (last_only xs)) (filter is_creation xs))
             @ orphans (last_only xs))) \<and>
   optimize_ir
     [mk ''IR_CREATE_OBJECT'' [PStr ''A''],
      mk ''IR_CREATE_OBJECT'' [PStr ''B''],
      mk ''IR_SET_PROPERTY'' [PStr ''A'', PStr ''x'', t1, PInt 1],
      mk ''IR_SET_PROPERTY'' [PStr ''B'', PStr ''y'', t2, PInt 2],
      mk ''IR_SET_PROPERTY'' [PStr ''A'', PStr ''z'', t3, PInt 3]] =
     Inr [mk ''IR_CREATE_OBJECT'' [PStr ''A''],
          mk ''IR_SET_PROPERTY'' [PStr ''A'', PStr ''x'', t1, PInt 1],
          mk ''IR_SET_PROPERTY'' [PStr ''A'', PStr ''z'', t3, PInt 3],
          mk ''IR_CREATE_OBJECT'' [PStr ''B''],
          mk ''IR_SET_PROPERTY'' [PStr ''B'', PStr ''y'', t2, PInt 2]]"
proof (intro conjI impI)
  assume a: "(\<forall>x \<in> set xs. known_opcode x) \<and> has_args xs \<and> sets_ok xs"
  have "filter is_creation (last_only xs) = filter is_creation xs"
    by (rule filter_last_only) (rule is_creation_not_set)
  then show "optimize_ir xs =
        Inr (concat (map (\<lambda>c. c # bucket_of c (last_only xs)) (filter is_creation xs))
             @ orphans (last_only xs))"
    using a by (simp add: optimize_ir_known grouped_def)
next
  show "optimize_ir
     [mk ''IR_CREATE_OBJECT'' [PStr ''A''],
      mk ''IR_CREATE_OBJECT'' [PStr ''B''],
      mk ''IR_SET_PROPERTY'' [PStr ''A'', PStr ''x'', t1, PInt 1],
      mk ''IR_SET_PROPERTY'' [PStr ''B'', PStr ''y'', t2, PInt 2],
      mk ''IR_SET_PROPERTY'' [PStr ''A'', PStr ''z'', t3, PInt 3]] =
     Inr [mk ''IR_CREATE_OBJECT'' [PStr ''A''],
          mk ''IR_SET_PROPERTY'' [PStr ''A'', PStr ''x'', t1, PInt 1],
          mk ''IR_SET_PROPERTY'' [PStr ''A'', PStr ''z'', t3, PInt 3],
          mk ''IR_CREATE_OBJECT'' [PStr ''B''],
          mk ''IR_SET_PROPERTY'' [PStr ''B'', PStr ''y'', t2, PInt 2]]"
    by (simp add: optimize_ir_def remove_redundant_sets_def group_instructions_def mk_def)
qed

theorem optimize_ir_groups_by_creation_witness:
  "list_all known_opcode ex_grouping \<and> has_args ex_grouping \<and> sets_ok ex_grouping \<and>
   optimize_ir ex_grouping =
     Inr (concat (map (\<lambda>c. c # bucket_of c (last_only ex_grouping)) (filter is_creation ex_grouping))
          @ orphans (last_only ex_grouping)) \<and>
   optimize_ir ex_grouping =
     Inr [mk ''IR_CREATE_LIST'' [PStr ''l''],
          mk ''IR_APPEND_LIST'' [PStr ''l'', PStr ''NUMBER'', PInt 7],
          mk ''IR_CREATE_OBJECT'' [PStr ''o''],
          mk ''IR_SET_PROPERTY'' [PStr ''o'', PStr ''k'', PStr ''NUMBER'', PInt 2],
          mk ''IR_SET_PROPERTY'' [PStr ''u'', PStr ''k'', PStr ''NUMBER'', PInt 5]]"
proof -
  have h1: "\<forall>x \<in> set ex_grouping. known_opcode x"
    by (simp add: ex_grouping_def known_opcode_def is_creation_def is_operation_def mk_def)
  have h2: "has_args ex_grouping"
    by (simp add: ex_grouping_def has_args_def mk_def)
  have h3: "sets_ok ex_grouping"
    by (simp add: ex_grouping_def sets_ok_def is_set_def mk_def)
  have run: "optimize_ir ex_grouping =
     Inr [mk ''IR_CREATE_LIST'' [PStr ''l''],
          mk ''IR_APPEND_LIST'' [PStr ''l'', PStr ''NUMBER'', PInt 7],
          mk ''IR_CREATE_OBJECT'' [PStr ''o''],
          mk ''IR_SET_PROPERTY'' [PStr ''o'', PStr ''k'', PStr ''NUMBER'', PInt 2],
          mk ''IR_SET_PROPERTY'' [PStr ''u'', PStr ''k'', PStr ''NUMBER'', PInt 5]]"
    by (simp add: ex_grouping_def optimize_ir_def remove_redundant_sets_def
        group_instructions_def mk_def)
  have "optimize_ir ex_grouping =
     Inr (concat (map (\<lambda>c. c # bucket_of c (last_only ex_grouping)) (filter is_creation ex_grouping))
          @ orphans (last_only ex_grouping))"
    using optimize_ir_groups_by_creation[of ex_grouping] h1 h2 h3 by blast
  moreover from h1 have "list_all known_opcode ex_grouping" by (simp only: list_all_iff)
  ultimately show ?thesis using h2 h3 run by (intro conjI)
qed

text \<open>
  Claim C7 as stated: an instruction with an opcode outside the known set makes the
  optimizer return its input unchanged. Phase 1 has already run when phase 2 meets the
  unknown opcode, so an overwritten \<open>IR_SET_PROPERTY\<close> is gone from the result.
\<close>

theorem optimize_ir_unknown_opcode_not_identity:
  "\<not> (\<forall>xs. (\<exists>x \<in> set xs. \<not> known_opcode x) \<longrightarrow> optimize_ir xs = Inr xs)"
proof
  assume "\<forall>xs. (\<exists>x \<in> set xs. \<not> known_opcode x) \<longrightarrow> optimize_ir xs = Inr xs"
  then have "(\<exists>x \<in> set ex_unknown. \<not> known_opcode x) \<longrightarrow> optimize_ir ex_unknown = Inr ex_unknown"
    by (rule spec)
  moreover have "\<exists>x \<in> set ex_unknown. \<not> known_opcode x"
    by (simp add: ex_unknown_def known_opcode_def is_creation_def is_operation_def mk_def)
  ultimately have "optimize_ir ex_unknown = Inr ex_unknown" by (rule mp)
  moreover have "optimize_ir ex_unknown =
      Inr [mk ''IR_PRINT'' [PStr ''o''],
           mk ''IR_CREATE_OBJECT'' [PStr ''o''],
           mk ''IR_SET_PROPERTY'' [PStr ''o'', PStr ''k'', PStr ''NUMBER'', PInt 2]]"
    by (simp add: ex_unknown_def optimize_ir_def remove_redundant_sets_def
        group_instructions_def mk_def)
  ultimately have "Inr ex_unknown =
      (Inr [mk ''IR_PRINT'' [PStr ''o''],
           mk ''IR_CREATE_OBJECT'' [PStr ''o''],
           mk ''IR_SET_PROPERTY'' [PStr ''o'', PStr ''k'', PStr ''NUMBER'', PInt 2]]
        :: py_error + instr list)"
    by (rule trans[OF sym])
  then have "ex_unknown =
      [mk ''IR_PRINT'' [PStr ''o''],
       mk ''IR_CREATE_OBJECT'' [PStr ''o''],
       mk ''IR_SET_PROPERTY'' [PStr ''o'', PStr ''k'', PStr ''NUMBER'', PInt 2]]"
    by (simp only: sum.inject)
  then have "length ex_unknown = length
      [mk ''IR_PRINT'' [PStr ''o''],
       mk ''IR_CREATE_OBJECT'' [PStr ''o''],
       mk ''IR_SET_PROPERTY'' [PStr ''o'', PStr ''k'', PStr ''NUMBER'', PInt 2]]"
    by (rule arg_cong)
  then show False by (simp add: ex_unknown_def)
qed

text \<open>
  Claim C7, amended. With an opcode outside the known set in the input, the optimizer
  returns what phase 1 returns: the grouping is skipped, the redundant-write elimination
  is not. The result is the input itself exactly when phase 1 has nothing to remove.
\<close>

theorem optimize_ir_unknown_opcode_is_phase1:
  "(\<exists>x \<in> set xs. \<not> known_opcode x) \<longrightarrow>
     optimize_ir xs = remove_redundant_sets xs \<and>
     (sets_ok xs \<longrightarrow> optimize_ir xs = Inr (last_only xs)) \<and>
     (\<not> sets_ok xs \<longrightarrow> optimize_ir xs = Inl IndexError)"
  by (simp add: optimize_ir_unknown remove_redundant_sets_eq)

theorem optimize_ir_unknown_opcode_is_phase1_witness:
  "(\<exists>x \<in> set ex_unknown. \<not> known_opcode x) \<and> sets_ok ex_unknown \<and>
   optimize_ir ex_unknown = remove_redundant_sets ex_unknown \<and>
   optimize_ir ex_unknown = Inr (last_only ex_unknown) \<and>
   optimize_ir ex_unknown =
     Inr [mk ''IR_PRINT'' [PStr ''o''],
          mk ''IR_CREATE_OBJECT'' [PStr ''o''],
          mk ''IR_SET_PROPERTY'' [PStr ''o'', PStr ''k'', PStr ''NUMBER'', PInt 2]]"
proof -
  have h: "\<exists>x \<in> set ex_unknown. \<not> known_opcode x"
    by (simp add: ex_unknown_def known_opcode_def is_creation_def is_operation_def mk_def)
  have ok: "sets_ok ex_unknown"
    by (simp add: ex_unknown_def sets_ok_def is_set_def mk_def)
  have run: "optimize_ir ex_unknown =
     Inr [mk ''IR_PRINT'' [PStr ''o''],
          mk ''IR_CREATE_OBJECT'' [PStr ''o''],
          mk ''IR_SET_PROPERTY'' [PStr ''o'', PStr ''k'', PStr ''NUMBER'', PInt 2]]"
    by (simp add: ex_unknown_def optimize_ir_def remove_redundant_sets_def
        group_instructions_def mk_def)
  have "optimize_ir ex_unknown = remove_redundant_sets ex_unknown \<and>
     (sets_ok ex_unknown \<longrightarrow> optimize_ir ex_unknown = Inr (last_only ex_unknown)) \<and>
     (\<not> sets_ok ex_unknown \<longrightarrow> optimize_ir ex_unknown = Inl IndexError)"
    using optimize_ir_unknown_opcode_is_phase1[of ex_unknown] h by (rule mp)
  then have a: "optimize_ir ex_unknown = remove_redundant_sets ex_unknown"
    and b: "sets_ok ex_unknown \<longrightarrow> optimize_ir ex_unknown = Inr (last_only ex_unknown)"
    by blast+
  from b ok have c: "optimize_ir ex_unknown = Inr (last_only ex_unknown)" by (rule mp)
  show ?thesis using h ok a c run by (intro conjI)
qed

subsection \<open>The grouping as a permutation\<close>

lemma mset_filter_disj:
  "(\<And>x. x \<in> set xs \<Longrightarrow> \<not> (A x \<and> B x)) \<Longrightarrow>
     mset (filter (\<lambda>x. A x \<or> B x) xs) = mset (filter A xs) + mset (filter B xs)"
  by (induction xs) auto

lemma mset_buckets:
  "distinct (map entity_key cs) \<Longrightarrow>
     mset (concat (map (\<lambda>c. c # bucket_of c xs) cs)) =
       mset cs + mset (filter (\<lambda>x. is_operation x \<and> entity_key x \<in> entity_key ` set cs) xs)"
proof (induction cs)
  case Nil
  then show ?case by simp
next
  case (Cons c cs)
  then have d: "distinct (map entity_key cs)" and notin: "entity_key c \<notin> entity_key ` set cs"
    by auto
  have "mset (filter (\<lambda>x. is_operation x \<and> entity_key x \<in> entity_key ` set (c # cs)) xs) =
        mset (filter (\<lambda>x. (is_operation x \<and> entity_key x = entity_key c) \<or>
                          (is_operation x \<and> entity_key x \<in> entity_key ` set cs)) xs)"
    by (rule arg_cong[where f = mset], rule filter_cong) auto
  also have "\<dots> = mset (bucket_of c xs) +
        mset (filter (\<lambda>x. is_operation x \<and> entity_key x \<in> entity_key ` set cs) xs)"
    unfolding bucket_of_def by (rule mset_filter_disj) (use notin in auto)
  finally show ?case using Cons.IH[OF d] by simp
qed

lemma mset_grouped:
  assumes known: "\<forall>x \<in> set xs. known_opcode x" and d: "distinct_creations xs"
  shows "mset (grouped xs) = mset xs"
proof -
  let ?cs = "filter is_creation xs"
  let ?A = "\<lambda>x. is_operation x \<and> entity_key x \<in> entity_key ` set ?cs"
  let ?B = "\<lambda>x. is_operation x \<and> \<not> (\<exists>c \<in> set xs. is_creation c \<and> entity_key c = entity_key x)"
  have "mset (grouped xs) = mset ?cs + (mset (filter ?A xs) + mset (filter ?B xs))"
    using d by (simp add: grouped_def orphans_def mset_buckets distinct_creations_def)
  also have "mset (filter ?A xs) + mset (filter ?B xs) = mset (filter (\<lambda>x. ?A x \<or> ?B x) xs)"
    by (rule mset_filter_disj[symmetric]) auto
  also have "filter (\<lambda>x. ?A x \<or> ?B x) xs = filter is_operation xs"
  proof (rule filter_cong[OF refl])
    fix x assume "x \<in> set xs"
    have "entity_key x \<in> entity_key ` set ?cs \<longleftrightarrow>
          (\<exists>c \<in> set xs. is_creation c \<and> entity_key c = entity_key x)"
      by (auto simp: image_iff)
    then show "(?A x \<or> ?B x) = is_operation x" by blast
  qed
  also have "mset ?cs + mset (filter is_operation xs) = mset (filter (\<lambda>x. is_creation x \<or> is_operation x) xs)"
    by (rule mset_filter_disj[symmetric]) (auto dest: is_creation_not_operation)
  also have "filter (\<lambda>x. is_creation x \<or> is_operation x) xs = xs"
    using known by (simp add: known_opcode_def)
  finally show ?thesis .
qed

lemma group_instructions_perm:
  assumes d: "distinct_creations xs" and run: "group_instructions xs = Inr ys"
  shows "mset ys = mset xs"
proof (cases "\<forall>x \<in> set xs. known_opcode x")
  case False
  then show ?thesis using run group_instructions_unknown[of xs] by auto
next
  case True
  show ?thesis
  proof (cases "has_args xs")
    case False
    then show ?thesis using run group_instructions_bad[OF True] by simp
  next
    case ok: True
    then show ?thesis using run group_instructions_ok[OF True ok] mset_grouped[OF True d] by simp
  qed
qed

lemma group_instructions_returns:
  "has_args xs \<Longrightarrow> \<exists>ys. group_instructions xs = Inr ys"
  using group_instructions_ok[of xs] group_instructions_unknown[of xs] by blast

lemma distinct_creations_last_only: "distinct_creations (last_only xs) = distinct_creations xs"
  by (simp add: distinct_creations_def filter_last_only[of is_creation] is_creation_not_set)

lemma optimize_ir_keeps_non_sets:
  assumes d: "distinct_creations xs" and run: "optimize_ir xs = Inr ys"
  shows "mset (filter (\<lambda>x. \<not> is_set x) ys) = mset (filter (\<lambda>x. \<not> is_set x) xs)"
proof (cases "xs = []")
  case True
  then show ?thesis using run by (simp add: optimize_ir_def)
next
  case False
  with run have ok: "sets_ok xs" and g: "group_instructions (last_only xs) = Inr ys"
    by (auto simp: optimize_ir_def remove_redundant_sets_eq split: if_splits)
  have "mset ys = mset (last_only xs)"
    using group_instructions_perm[OF _ g] d by (simp add: distinct_creations_last_only)
  then have "mset (filter (\<lambda>x. \<not> is_set x) ys) = mset (filter (\<lambda>x. \<not> is_set x) (last_only xs))"
    by (simp only: mset_filter)
  then show ?thesis by (simp add: filter_last_only)
qed

text \<open>
  Claim C9 as stated: the grouping phase returns a permutation of any input. When two
  creation instructions name the same entity, the bucket of that entity is emitted after
  each of them: the \<open>IR_APPEND_LIST\<close> of the example occurs once in the input and twice in
  the output, of the grouping phase and of the optimizer alike.
\<close>

theorem group_instructions_duplicates_bucket:
  "group_instructions ex_recreate =
     Inr [mk ''IR_CREATE_LIST'' [PStr ''A''],
          mk ''IR_APPEND_LIST'' [PStr ''A'', PStr ''NUMBER'', PInt 1],
          mk ''IR_CREATE_LIST'' [PStr ''A''],
          mk ''IR_APPEND_LIST'' [PStr ''A'', PStr ''NUMBER'', PInt 1]] \<and>
   optimize_ir ex_recreate = group_instructions ex_recreate \<and>
   \<not> (\<forall>xs ys. group_instructions xs = Inr ys \<longrightarrow> mset ys = mset xs)"
proof -
  have run: "group_instructions ex_recreate =
     Inr [mk ''IR_CREATE_LIST'' [PStr ''A''],
          mk ''IR_APPEND_LIST'' [PStr ''A'', PStr ''NUMBER'', PInt 1],
          mk ''IR_CREATE_LIST'' [PStr ''A''],
          mk ''IR_APPEND_LIST'' [PStr ''A'', PStr ''NUMBER'', PInt 1]]"
    by (simp add: ex_recreate_def group_instructions_def mk_def)
  have opt: "optimize_ir ex_recreate = group_instructions ex_recreate"
    by (simp add: ex_recreate_def optimize_ir_def remove_redundant_sets_def mk_def)
  have "\<not> (\<forall>xs ys. group_instructions xs = Inr ys \<longrightarrow> mset ys = mset xs)"
  proof
    assume "\<forall>xs ys. group_instructions xs = Inr ys \<longrightarrow> mset ys = mset xs"
    with run have "mset [mk ''IR_CREATE_LIST'' [PStr ''A''],
          mk ''IR_APPEND_LIST'' [PStr ''A'', PStr ''NUMBER'', PInt 1],
          mk ''IR_CREATE_LIST'' [PStr ''A''],
          mk ''IR_APPEND_LIST'' [PStr ''A'', PStr ''NUMBER'', PInt 1]] = mset ex_recreate"
      by (elim allE impE)
    then have "length [mk ''IR_CREATE_LIST'' [PStr ''A''],
          mk ''IR_APPEND_LIST'' [PStr ''A'', PStr ''NUMBER'', PInt 1],
          mk ''IR_CREATE_LIST'' [PStr ''A''],
          mk ''IR_APPEND_LIST'' [PStr ''A'', PStr ''NUMBER'', PInt 1]] = length ex_recreate"
      by (rule mset_eq_length)
    then show False by (simp add: ex_recreate_def)
  qed
  with run opt show ?thesis by (intro conjI)
qed

text \<open>
  Claim C9, amended. For every instruction sequence in which no two creation instructions
  name the same entity, whatever the grouping phase returns is a permutation of its input,
  and it returns whenever every instruction carries its entity name; hence the optimizer
  neither drops nor duplicates an instruction other than \<open>IR_SET_PROPERTY\<close>.
\<close>

theorem group_instructions_permutation:
  "distinct_creations xs \<longrightarrow>
     (\<forall>ys. group_instructions xs = Inr ys \<longrightarrow> mset ys = mset xs) \<and>
     (has_args xs \<longrightarrow> (\<exists>ys. group_instructions xs = Inr ys)) \<and>
     (\<forall>ys. optimize_ir xs = Inr ys \<longrightarrow>
        mset (filter (\<lambda>x. \<not> is_set x) ys) = mset (filter (\<lambda>x. \<not> is_set x) xs))"
  using group_instructions_perm group_instructions_returns optimize_ir_keeps_non_sets
  by blast

theorem group_instructions_permutation_witness:
  "distinct_creations ex_grouping \<and> has_args ex_grouping \<and>
   (\<exists>ys. group_instructions ex_grouping = Inr ys \<and> mset ys = mset ex_grouping) \<and>
   (\<exists>ys. optimize_ir ex_grouping = Inr ys \<and>
      mset (filter (\<lambda>x. \<not> is_set x) ys) = mset (filter (\<lambda>x. \<not> is_set x) ex_grouping))"
proof -
  have d: "distinct_creations ex_grouping"
    by (simp add: ex_grouping_def distinct_creations_def is_creation_def entity_key_def mk_def)
  have h: "has_args ex_grouping"
    by (simp add: ex_grouping_def has_args_def mk_def)
  have run: "\<exists>ys. optimize_ir ex_grouping = Inr ys"
    by (simp add: ex_grouping_def optimize_ir_def remove_redundant_sets_def
        group_instructions_def mk_def)
  from group_instructions_permutation[of ex_grouping] d
  have "(\<forall>ys. group_instructions ex_grouping = Inr ys \<longrightarrow> mset ys = mset ex_grouping) \<and>
     (has_args ex_grouping \<longrightarrow> (\<exists>ys. group_instructions ex_grouping = Inr ys)) \<and>
     (\<forall>ys. optimize_ir ex_grouping = Inr ys \<longrightarrow>
        mset (filter (\<lambda>x. \<not> is_set x) ys) = mset (filter (\<lambda>x. \<not> is_set x) ex_grouping))"
    by (rule mp)
  with d h run show ?thesis by blast
qed

subsection \<open>Idempotence\<close>

lemma last_only_distinct_writes: "distinct (map write_key (filter is_set (last_only xs)))"
proof (induction xs)
  case Nil
  then show ?case by simp
next
  case (Cons x xs)
  then show ?case using last_only_subset[of xs] by auto
qed

lemma distinct_writes_last_only:
  "distinct (map write_key (filter is_set zs)) \<Longrightarrow> last_only zs = zs"
proof (induction zs)
  case Nil
  then show ?case by simp
next
  case (Cons x zs)
  then have ih: "last_only zs = zs" by (simp split: if_splits)
  have "\<not> (is_set x \<and> (\<exists>y \<in> set zs. is_set y \<and> write_key y = write_key x))"
  proof
    assume "is_set x \<and> (\<exists>y \<in> set zs. is_set y \<and> write_key y = write_key x)"
    then obtain y where x: "is_set x" and y: "y \<in> set zs" "is_set y" "write_key y = write_key x"
      by blast
    from y(1,2) have "write_key y \<in> set (map write_key (filter is_set zs))" by simp
    then have "write_key x \<in> set (map write_key (filter is_set zs))" unfolding y(3) .
    with Cons.prems x show False by simp
  qed
  then show ?case using ih by simp
qed

lemma last_only_idem: "last_only (last_only xs) = last_only xs"
  by (rule distinct_writes_last_only) (rule last_only_distinct_writes)

lemma last_only_perm:
  assumes "mset ys = mset (last_only xs)"
  shows "last_only ys = ys"
proof -
  have "mset (map write_key (filter is_set ys)) = mset (map write_key (filter is_set (last_only xs)))"
    using assms by (simp only: mset_map mset_filter)
  then have "distinct (map write_key (filter is_set ys))"
    using last_only_distinct_writes[of xs] mset_eq_imp_distinct_iff by blast
  then show ?thesis by (rule distinct_writes_last_only)
qed

lemma bucket_of_operations: "x \<in> set (bucket_of c zs) \<Longrightarrow> is_operation x \<and> entity_key x = entity_key c \<and> x \<in> set zs"
  by (simp add: bucket_of_def)

lemma filter_creation_bucket: "filter is_creation (bucket_of c zs) = []"
  by (auto simp: filter_empty_conv bucket_of_def dest: is_creation_not_operation)

lemma filter_creation_buckets:
  "\<forall>c \<in> set cs. is_creation c \<Longrightarrow>
     filter is_creation (concat (map (\<lambda>c. c # bucket_of c zs) cs)) = cs"
  by (induction cs) (simp_all add: filter_creation_bucket)

lemma filter_creation_orphans: "filter is_creation (orphans zs) = []"
  by (auto simp: filter_empty_conv orphans_def dest: is_creation_not_operation)

lemma filter_creation_grouped: "filter is_creation (grouped zs) = filter is_creation zs"
  by (simp add: grouped_def filter_creation_buckets filter_creation_orphans)

lemma bucket_in_buckets:
  "distinct (map entity_key cs) \<Longrightarrow> \<forall>c \<in> set cs. \<not> is_operation c \<Longrightarrow>
     concat (map (\<lambda>c'. filter (\<lambda>x. is_operation x \<and> entity_key x = k) (c' # bucket_of c' zs)) cs) =
       (if k \<in> entity_key ` set cs then filter (\<lambda>x. is_operation x \<and> entity_key x = k) zs else [])"
proof (induction cs)
  case Nil
  then show ?case by simp
next
  case (Cons c cs)
  have one: "filter (\<lambda>x. is_operation x \<and> entity_key x = k) (c # bucket_of c zs) =
      (if entity_key c = k then filter (\<lambda>x. is_operation x \<and> entity_key x = k) zs else [])"
    using Cons.prems(2) by (auto simp: bucket_of_def filter_empty_conv intro!: filter_cong)
  from Cons.prems have d: "distinct (map entity_key cs)" and n: "entity_key c \<notin> entity_key ` set cs"
    and no: "\<forall>c \<in> set cs. \<not> is_operation c"
    by auto
  show ?case
    using Cons.IH[OF d no] n by (simp only: list.map concat.simps one) auto
qed

lemma bucket_of_grouped:
  assumes d: "distinct_creations zs" and c: "c \<in> set zs" "is_creation c"
  shows "bucket_of c (grouped zs) = bucket_of c zs"
proof -
  let ?cs = "filter is_creation zs"
  let ?Q = "\<lambda>x. is_operation x \<and> entity_key x = entity_key c"
  have "filter ?Q (orphans zs) = []"
    using c by (auto simp: filter_empty_conv orphans_def)
  moreover have "filter ?Q (concat (map (\<lambda>c'. c' # bucket_of c' zs) ?cs)) = filter ?Q zs"
  proof -
    have "filter ?Q (concat (map (\<lambda>c'. c' # bucket_of c' zs) ?cs)) =
          concat (map (\<lambda>c'. filter ?Q (c' # bucket_of c' zs)) ?cs)"
      by (simp only: filter_concat map_map comp_def)
    also have "\<dots> = (if entity_key c \<in> entity_key ` set ?cs then filter ?Q zs else [])"
      by (rule bucket_in_buckets)
         (use d in \<open>auto simp: distinct_creations_def dest: is_creation_not_operation\<close>)
    also have "\<dots> = filter ?Q zs" using c by auto
    finally show ?thesis .
  qed
  ultimately show ?thesis by (simp add: bucket_of_def grouped_def)
qed

lemma orphans_grouped: "orphans (grouped zs) = orphans zs"
proof -
  let ?R = "\<lambda>x. is_operation x \<and> \<not> (\<exists>c \<in> set zs. is_creation c \<and> entity_key c = entity_key x)"
  have same: "(\<exists>c \<in> set (grouped zs). is_creation c \<and> entity_key c = k) =
        (\<exists>c \<in> set zs. is_creation c \<and> entity_key c = k)" for k
  proof -
    have "set (filter is_creation (grouped zs)) = set (filter is_creation zs)"
      by (simp only: filter_creation_grouped)
    then show ?thesis by auto
  qed
  have "orphans (grouped zs) = filter ?R (grouped zs)"
    unfolding orphans_def by (simp only: same)
  also have "\<dots> = filter ?R (concat (map (\<lambda>c. c # bucket_of c zs) (filter is_creation zs)))
      @ filter ?R (orphans zs)"
    by (simp add: grouped_def)
  also have "filter ?R (concat (map (\<lambda>c. c # bucket_of c zs) (filter is_creation zs))) = []"
    by (auto simp: filter_empty_conv bucket_of_def dest: is_creation_not_operation)
  also have "filter ?R (orphans zs) = orphans zs"
    by (simp add: orphans_def)
  finally show ?thesis by simp
qed

lemma grouped_idem:
  assumes d: "distinct_creations zs"
  shows "grouped (grouped zs) = grouped zs"
proof -
  have "map (\<lambda>c. c # bucket_of c (grouped zs)) (filter is_creation zs) =
        map (\<lambda>c. c # bucket_of c zs) (filter is_creation zs)"
    by (rule map_cong[OF refl]) (simp add: bucket_of_grouped[OF d])
  note mapeq = this
  have "grouped (grouped zs) =
      concat (map (\<lambda>c. c # bucket_of c (grouped zs)) (filter is_creation zs)) @ orphans zs"
    by (subst grouped_def) (simp only: filter_creation_grouped orphans_grouped)
  also have "\<dots> = concat (map (\<lambda>c. c # bucket_of c zs) (filter is_creation zs)) @ orphans zs"
    by (simp only: mapeq)
  also have "\<dots> = grouped zs" by (simp only: grouped_def)
  finally show ?thesis .
qed

lemma optimize_ir_error:
  assumes "\<forall>x \<in> set xs. known_opcode x" "\<not> (has_args xs \<and> sets_ok xs)"
  shows "optimize_ir xs = Inl IndexError"
proof -
  have ne: "xs \<noteq> []" using assms(2) by (auto simp: has_args_def sets_ok_def)
  show ?thesis
  proof (cases "sets_ok xs")
    case False
    then show ?thesis using ne by (simp add: optimize_ir_def remove_redundant_sets_eq)
  next
    case True
    with assms(2) have "\<not> has_args xs" by simp
    then obtain x where x: "x \<in> set xs" "args x = []" by (auto simp: has_args_def)
    then have "\<not> is_set x" using True by (auto simp: sets_ok_def)
    then have "x \<in> set (last_only xs)" using x by (simp add: last_only_keeps_non_set)
    then have "\<not> has_args (last_only xs)" using x by (auto simp: has_args_def)
    then have "group_instructions (last_only xs) = Inl IndexError"
      using group_instructions_bad[OF known_last_only[OF assms(1)]] by simp
    then show ?thesis using ne True by (simp add: optimize_ir_def remove_redundant_sets_eq)
  qed
qed

lemma optimize_twice_unknown:
  assumes "\<exists>x \<in> set xs. \<not> known_opcode x"
  shows "optimize_twice xs = optimize_ir xs"
proof (cases "sets_ok xs")
  case False
  then show ?thesis using assms
    by (simp add: optimize_twice_def optimize_ir_unknown remove_redundant_sets_eq)
next
  case True
  from assms obtain x where x: "x \<in> set xs" "\<not> known_opcode x" by blast
  then have "x \<in> set (last_only xs)" by (simp add: last_only_keeps_non_set unknown_not_set)
  then have u: "\<exists>x \<in> set (last_only xs). \<not> known_opcode x" using x by blast
  have ok: "sets_ok (last_only xs)" using True last_only_subset[of xs] by (auto simp: sets_ok_def)
  have "optimize_ir xs = Inr (last_only xs)"
    using assms True by (simp add: optimize_ir_unknown remove_redundant_sets_eq)
  moreover have "optimize_ir (last_only xs) = Inr (last_only xs)"
    using u ok by (simp add: optimize_ir_unknown remove_redundant_sets_eq last_only_idem)
  ultimately show ?thesis by (simp add: optimize_twice_def)
qed

lemma optimize_twice_known:
  assumes known: "\<forall>x \<in> set xs. known_opcode x" and d: "distinct_creations xs"
  shows "optimize_twice xs = optimize_ir xs"
proof (cases "has_args xs \<and> sets_ok xs")
  case False
  then show ?thesis using optimize_ir_error[OF known] by (simp add: optimize_twice_def)
next
  case True
  let ?zs = "last_only xs" and ?ys = "grouped (last_only xs)"
  have first: "optimize_ir xs = Inr ?ys" using known True by (simp add: optimize_ir_known)
  have dz: "distinct_creations ?zs" using d by (simp add: distinct_creations_last_only)
  have kz: "\<forall>x \<in> set ?zs. known_opcode x" by (rule known_last_only[OF known])
  have perm: "mset ?ys = mset ?zs" by (rule mset_grouped[OF kz dz])
  then have "set ?ys = set ?zs" by (rule mset_eq_setD)
  then have sub: "set ?ys \<subseteq> set xs" using last_only_subset[of xs] by simp
  have ky: "\<forall>x \<in> set ?ys. known_opcode x" using sub known by blast
  have hy: "has_args ?ys" using sub True by (auto simp: has_args_def)
  have sy: "sets_ok ?ys" using sub True by (auto simp: sets_ok_def)
  have "optimize_ir ?ys = Inr (grouped (last_only ?ys))"
    by (rule optimize_ir_known[OF ky hy sy])
  also have "last_only ?ys = ?ys" by (rule last_only_perm[OF perm])
  also have "grouped ?ys = ?ys" by (rule grouped_idem[OF dz])
  finally show ?thesis using first by (simp add: optimize_twice_def)
qed

text \<open>
  Claim C4 as stated: \<open>optimize(optimize(x)) = optimize(x)\<close> for every instruction
  sequence. Where an entity is created twice, every pass appends the bucket of the entity
  after each of its creations, so the appends multiply: three instructions become four,
  and the four become six.
\<close>

theorem optimize_ir_not_idempotent:
  "optimize_ir ex_recreate =
     Inr [mk ''IR_CREATE_LIST'' [PStr ''A''],
          mk ''IR_APPEND_LIST'' [PStr ''A'', PStr ''NUMBER'', PInt 1],
          mk ''IR_CREATE_LIST'' [PStr ''A''],
          mk ''IR_APPEND_LIST'' [PStr ''A'', PStr ''NUMBER'', PInt 1]] \<and>
   optimize_twice ex_recreate =
     Inr [mk ''IR_CREATE_LIST'' [PStr ''A''],
          mk ''IR_APPEND_LIST'' [PStr ''A'', PStr ''NUMBER'', PInt 1],
          mk ''IR_APPEND_LIST'' [PStr ''A'', PStr ''NUMBER'', PInt 1],
          mk ''IR_CREATE_LIST'' [PStr ''A''],
          mk ''IR_APPEND_LIST'' [PStr ''A'', PStr ''NUMBER'', PInt 1],
          mk ''IR_APPEND_LIST'' [PStr ''A'', PStr ''NUMBER'', PInt 1]] \<and>
   optimize_twice ex_recreate \<noteq> optimize_ir ex_recreate"
proof -
  have one: "optimize_ir ex_recreate =
     Inr [mk ''IR_CREATE_LIST'' [PStr ''A''],
          mk ''IR_APPEND_LIST'' [PStr ''A'', PStr ''NUMBER'', PInt 1],
          mk ''IR_CREATE_LIST'' [PStr ''A''],
          mk ''IR_APPEND_LIST'' [PStr ''A'', PStr ''NUMBER'', PInt 1]]"
    by (simp add: ex_recreate_def optimize_ir_def remove_redundant_sets_def
        group_instructions_def mk_def)
  have two: "optimize_twice ex_recreate =
     Inr [mk ''IR_CREATE_LIST'' [PStr ''A''],
          mk ''IR_APPEND_LIST'' [PStr ''A'', PStr ''NUMBER'', PInt 1],
          mk ''IR_APPEND_LIST'' [PStr ''A'', PStr ''NUMBER'', PInt 1],
          mk ''IR_CREATE_LIST'' [PStr ''A''],
          mk ''IR_APPEND_LIST'' [PStr ''A'', PStr ''NUMBER'', PInt 1],
          mk ''IR_APPEND_LIST'' [PStr ''A'', PStr ''NUMBER'', PInt 1]]"
    unfolding optimize_twice_def one
    by (simp add: optimize_ir_def remove_redundant_sets_def group_instructions_def mk_def)
  have "optimize_twice ex_recreate \<noteq> optimize_ir ex_recreate"
    unfolding one two by simp
  with one two show ?thesis by (intro conjI)
qed

text \<open>
  Claim C4, amended. \<open>optimize(optimize(x)) = optimize(x)\<close> for every instruction sequence
  in which no two creation instructions name the same entity, and for every sequence with
  an opcode outside the known set; the empty sequence is among them. When the first call
  raises, so does the composition.
\<close>

theorem optimize_ir_idempotent:
  "distinct_creations xs \<or> (\<exists>x \<in> set xs. \<not> known_opcode x) \<longrightarrow>
     optimize_twice xs = optimize_ir xs"
  using optimize_twice_unknown optimize_twice_known by blast

theorem optimize_ir_idempotent_witness:
  "distinct_creations ex_grouping \<and> optimize_twice ex_grouping = optimize_ir ex_grouping \<and>
   (\<exists>ys. optimize_ir ex_grouping = Inr ys \<and> ys \<noteq> ex_grouping) \<and>
   (\<exists>x \<in> set ex_unknown. \<not> known_opcode x) \<and>
   optimize_twice ex_unknown = optimize_ir ex_unknown \<and>
   optimize_twice [] = optimize_ir []"
proof -
  have d: "distinct_creations ex_grouping"
    by (simp add: ex_grouping_def distinct_creations_def is_creation_def entity_key_def mk_def)
  have u: "\<exists>x \<in> set ex_unknown. \<not> known_opcode x"
    by (simp add: ex_unknown_def known_opcode_def is_creation_def is_operation_def mk_def)
  have run: "\<exists>ys. optimize_ir ex_grouping = Inr ys \<and> ys \<noteq> ex_grouping"
    by (simp add: ex_grouping_def optimize_ir_def remove_redundant_sets_def
        group_instructions_def mk_def)
  have e: "distinct_creations []" by (simp add: distinct_creations_def)
  show ?thesis
    using optimize_ir_idempotent[of ex_grouping] optimize_ir_idempotent[of ex_unknown]
      optimize_ir_idempotent[of "[]"] d u e run
    by blast
qed

section \<open>Properties of the semantic analysis\<close>

lemma sa_walk_propiedades_unset:
  "current_symbol_name st = None \<or> current_symbol_name st = Some [] \<Longrightarrow>
     sa_walk_propiedades st ps = Inr st"
  by (induction ps) (auto simp: sa_enterPropiedad_def sa_enterValor_def)

lemma sa_walk_items_unset:
  "current_symbol_name st = None \<or> current_symbol_name st = Some [] \<Longrightarrow>
     sa_walk_items st vs = Inr st"
  by (induction vs) (auto simp: sa_enterValor_def)

lemma sa_walk_propiedades_objeto:
  assumes "current_symbol_name st = Some n" "n \<noteq> []" "sa_symbols st n = Some e"
    "tipo_entidad e = ''objeto''" "metadatos e ''propiedades'' = Some (Props P)"
  shows "sa_walk_propiedades st ps =
     Inr (st\<lparr>sa_symbols := (sa_symbols st)(n \<mapsto>
            e\<lparr>metadatos := (metadatos e)(''propiedades'' \<mapsto> Props (property_types ps P))\<rparr>)\<rparr>)"
  using assms
proof (induction ps arbitrary: st e P)
  case Nil
  then show ?case by (simp add: map_upd_triv)
next
  case (Cons p ps)
  let ?P = "P(clave p \<mapsto> get_value_type (valor p))"
  let ?e = "e\<lparr>metadatos := (metadatos e)(''propiedades'' \<mapsto> Props ?P)\<rparr>"
  let ?st = "st\<lparr>sa_symbols := (sa_symbols st)(n \<mapsto> ?e)\<rparr>"
  have 1: "sa_enterPropiedad st p = Inr ?st"
    using Cons.prems by (simp add: sa_enterPropiedad_def lookup_def)
  have 2: "sa_enterValor ?st (valor p) = Inr ?st"
    using Cons.prems by (simp add: sa_enterValor_def lookup_def)
  have "sa_walk_propiedades ?st ps =
     Inr (?st\<lparr>sa_symbols := (sa_symbols ?st)(n \<mapsto>
            ?e\<lparr>metadatos := (metadatos ?e)(''propiedades'' \<mapsto> Props (property_types ps ?P))\<rparr>)\<rparr>)"
  proof (rule Cons.IH[of ?st ?e ?P])
    show "current_symbol_name ?st = Some n" using Cons.prems by simp
    show "n \<noteq> []" by fact
    show "sa_symbols ?st n = Some ?e" by simp
    show "tipo_entidad ?e = ''objeto''" using Cons.prems by simp
    show "metadatos ?e ''propiedades'' = Some (Props ?P)" by simp
  qed
  note rest = this
  have "sa_walk_propiedades st (p # ps) = sa_walk_propiedades ?st ps"
    by (simp only: sa_walk_propiedades.simps 1 2 sum.case)
  also note rest
  also have "?st\<lparr>sa_symbols := (sa_symbols ?st)(n \<mapsto>
            ?e\<lparr>metadatos := (metadatos ?e)(''propiedades'' \<mapsto> Props (property_types ps ?P))\<rparr>)\<rparr> =
      st\<lparr>sa_symbols := (sa_symbols st)(n \<mapsto>
            e\<lparr>metadatos := (metadatos e)(''propiedades'' \<mapsto> Props (property_types (p # ps) P))\<rparr>)\<rparr>"
    by simp
  finally show ?case .
qed

lemma sa_walk_items_lista:
  assumes "current_symbol_name st = Some n" "n \<noteq> []" "sa_symbols st n = Some e"
    "tipo_entidad e = ''lista''" "metadatos e ''tipos_elementos'' = Some (Tipos L)"
  shows "sa_walk_items st vs =
     Inr (st\<lparr>sa_symbols := (sa_symbols st)(n \<mapsto>
            e\<lparr>metadatos := (metadatos e)(''tipos_elementos'' \<mapsto> Tipos (L @ map get_value_type vs))\<rparr>)\<rparr>)"
  using assms
proof (induction vs arbitrary: st e L)
  case Nil
  then show ?case by (simp add: map_upd_triv)
next
  case (Cons v vs)
  let ?L = "L @ [get_value_type v]"
  let ?e = "e\<lparr>metadatos := (metadatos e)(''tipos_elementos'' \<mapsto> Tipos ?L)\<rparr>"
  let ?st = "st\<lparr>sa_symbols := (sa_symbols st)(n \<mapsto> ?e)\<rparr>"
  have 1: "sa_enterValor st v = Inr ?st"
    using Cons.prems by (simp add: sa_enterValor_def lookup_def)
  have "sa_walk_items ?st vs =
     Inr (?st\<lparr>sa_symbols := (sa_symbols ?st)(n \<mapsto>
            ?e\<lparr>metadatos := (metadatos ?e)(''tipos_elementos'' \<mapsto> Tipos (?L @ map get_value_type vs))\<rparr>)\<rparr>)"
  proof (rule Cons.IH[of ?st ?e ?L])
    show "current_symbol_name ?st = Some n" using Cons.prems by simp
    show "n \<noteq> []" by fact
    show "sa_symbols ?st n = Some ?e" by simp
    show "tipo_entidad ?e = ''lista''" using Cons.prems by simp
    show "metadatos ?e ''tipos_elementos'' = Some (Tipos ?L)" by simp
  qed
  note rest = this
  have "sa_walk_items st (v # vs) = sa_walk_items ?st vs"
    by (simp only: sa_walk_items.simps 1 sum.case)
  also note rest
  also have "?st\<lparr>sa_symbols := (sa_symbols ?st)(n \<mapsto>
            ?e\<lparr>metadatos := (metadatos ?e)(''tipos_elementos'' \<mapsto> Tipos (?L @ map get_value_type vs))\<rparr>)\<rparr> =
      st\<lparr>sa_symbols := (sa_symbols st)(n \<mapsto>
            e\<lparr>metadatos := (metadatos e)(''tipos_elementos'' \<mapsto> Tipos (L @ map get_value_type (v # vs)))\<rparr>)\<rparr>"
    by simp
  finally show ?case .
qed

lemma sa_walk_comando_reserved:
  assumes "is_reserved (cmd_name c)"
  shows "sa_walk_comando st c =
     Inr (st\<lparr>sa_errors := add_semantic_error (sa_errors st) (cmd_line c) (cmd_column c + 1)
                 (Palabra_reservada (cmd_name c)),
             current_symbol_name := None\<rparr>)"
  using assms
  by (cases c)
     (simp_all add: sa_enterCrear_objeto_cmd_def sa_enterCrear_lista_cmd_def enter_crear_def
        sa_walk_propiedades_unset sa_walk_items_unset sa_exitCrear_cmd_def Let_def)

lemma sa_walk_comando_redefinition:
  assumes "\<not> is_reserved (cmd_name c)" "sa_symbols st (cmd_name c) = Some prev"
  shows "sa_walk_comando st c =
     Inr (st\<lparr>sa_errors := add_semantic_error (sa_errors st) (cmd_line c) (cmd_column c + 1)
                 (Redefinicion (cmd_name c) (tipo_entidad prev) (linea prev)),
             current_symbol_name := None\<rparr>)"
  using assms
  by (cases c)
     (auto simp: sa_enterCrear_objeto_cmd_def sa_enterCrear_lista_cmd_def enter_crear_def
        declare_symbol_def lookup_def sa_walk_propiedades_unset sa_walk_items_unset
        sa_exitCrear_cmd_def Let_def)

lemma sa_walk_comando_declared:
  assumes "\<not> is_reserved (cmd_name c)" "sa_symbols st (cmd_name c) = None"
  shows "sa_walk_comando st c =
     Inr (st\<lparr>sa_symbols := (sa_symbols st)(cmd_name c \<mapsto> declared_entry c),
             current_symbol_name := None\<rparr>)"
proof (cases c)
  case (Crear_objeto_cmd n l col ps)
  let ?e = "SymbolEntry n ''objeto'' l (col + 1) (Some [''propiedades'' \<mapsto> Props Map.empty])"
  let ?st = "st\<lparr>sa_symbols := (sa_symbols st)(n \<mapsto> ?e), current_symbol_name := Some n\<rparr>"
  have enter: "sa_enterCrear_objeto_cmd st n l col = Inr ?st"
    using assms Crear_objeto_cmd
    by (auto simp: sa_enterCrear_objeto_cmd_def enter_crear_def declare_symbol_def Let_def)
  show ?thesis
  proof (cases "n = []")
    case True
    then have "sa_walk_propiedades ?st ps = Inr ?st"
      by (intro sa_walk_propiedades_unset) simp
    then show ?thesis using enter Crear_objeto_cmd True
      by (simp add: sa_exitCrear_cmd_def declared_entry_def SymbolEntry_def)
  next
    case False
    have "sa_walk_propiedades ?st ps =
       Inr (?st\<lparr>sa_symbols := (sa_symbols ?st)(n \<mapsto>
            ?e\<lparr>metadatos := (metadatos ?e)(''propiedades'' \<mapsto> Props (property_types ps Map.empty))\<rparr>)\<rparr>)"
      by (rule sa_walk_propiedades_objeto) (use False in \<open>simp_all add: SymbolEntry_def\<close>)
    then show ?thesis using enter Crear_objeto_cmd False
      by (simp add: sa_exitCrear_cmd_def declared_entry_def SymbolEntry_def)
  qed
next
  case (Crear_lista_cmd n l col vs)
  let ?e = "SymbolEntry n ''lista'' l (col + 1) (Some [''tipos_elementos'' \<mapsto> Tipos []])"
  let ?st = "st\<lparr>sa_symbols := (sa_symbols st)(n \<mapsto> ?e), current_symbol_name := Some n\<rparr>"
  have enter: "sa_enterCrear_lista_cmd st n l col = Inr ?st"
    using assms Crear_lista_cmd
    by (auto simp: sa_enterCrear_lista_cmd_def enter_crear_def declare_symbol_def Let_def)
  show ?thesis
  proof (cases "n = []")
    case True
    then have "sa_walk_items ?st vs = Inr ?st"
      by (intro sa_walk_items_unset) simp
    then show ?thesis using enter Crear_lista_cmd True
      by (simp add: sa_exitCrear_cmd_def declared_entry_def SymbolEntry_def)
  next
    case False
    have "sa_walk_items ?st vs =
       Inr (?st\<lparr>sa_symbols := (sa_symbols ?st)(n \<mapsto>
            ?e\<lparr>metadatos := (metadatos ?e)(''tipos_elementos'' \<mapsto> Tipos ([] @ map get_value_type vs))\<rparr>)\<rparr>)"
      by (rule sa_walk_items_lista) (use False in \<open>simp_all add: SymbolEntry_def\<close>)
    then show ?thesis using enter Crear_lista_cmd False
      by (simp add: sa_exitCrear_cmd_def declared_entry_def SymbolEntry_def)
  qed
qed


lemma declare_symbol_present:
  "name \<in> dom symbols \<Longrightarrow> declare_symbol symbols name kind l c m = (False, symbols)"
  by (simp add: declare_symbol_def)

lemma sa_walk_comando_present:
  assumes "\<not> is_reserved (cmd_name c)" "cmd_name c \<in> dom (sa_symbols st)"
  shows "\<exists>st'. sa_walk_comando st c = Inr st' \<and>
     semantic_errors (sa_errors st') = semantic_errors (sa_errors st) + 1 \<and>
     sa_symbols st' = sa_symbols st"
proof -
  from assms(2) obtain prev where "sa_symbols st (cmd_name c) = Some prev" by blast
  from sa_walk_comando_redefinition[OF assms(1) this]
  show ?thesis by (simp add: add_semantic_error_def)
qed

lemma semantic_pass_twice:
  assumes nr: "\<not> is_reserved (cmd_name c1)" and same: "cmd_name c2 = cmd_name c1"
  shows "semantic_pass src [c1] =
      Inr \<lparr>sa_errors = CustomErrorListener src,
           sa_symbols = [cmd_name c1 \<mapsto> declared_entry c1], current_symbol_name = None\<rparr>"
    and "semantic_pass src [c1, c2] =
      Inr \<lparr>sa_errors = add_semantic_error (CustomErrorListener src) (cmd_line c2) (cmd_column c2 + 1)
             (Redefinicion (cmd_name c1) (cmd_kind c1) (cmd_line c1)),
           sa_symbols = [cmd_name c1 \<mapsto> declared_entry c1], current_symbol_name = None\<rparr>"
proof -
  let ?st0 = "SemanticAnalyzer (CustomErrorListener src) Map.empty"
  let ?st1 = "\<lparr>sa_errors = CustomErrorListener src,
           sa_symbols = [cmd_name c1 \<mapsto> declared_entry c1], current_symbol_name = None\<rparr>"
  have 1: "sa_walk_comando ?st0 c1 = Inr ?st1"
    using sa_walk_comando_declared[of c1 ?st0] nr by (simp add: SemanticAnalyzer_def)
  then show "semantic_pass src [c1] = Inr ?st1" by (simp add: semantic_pass_def)
  have 2: "sa_walk_comando ?st1 c2 =
      Inr (?st1\<lparr>sa_errors := add_semantic_error (sa_errors ?st1) (cmd_line c2) (cmd_column c2 + 1)
                 (Redefinicion (cmd_name c2) (tipo_entidad (declared_entry c1)) (linea (declared_entry c1))),
             current_symbol_name := None\<rparr>)"
    by (rule sa_walk_comando_redefinition) (use nr same in simp_all)
  show "semantic_pass src [c1, c2] =
      Inr \<lparr>sa_errors = add_semantic_error (CustomErrorListener src) (cmd_line c2) (cmd_column c2 + 1)
             (Redefinicion (cmd_name c1) (cmd_kind c1) (cmd_line c1)),
           sa_symbols = [cmd_name c1 \<mapsto> declared_entry c1], current_symbol_name = None\<rparr>"
  proof -
    have "semantic_pass src [c1, c2] =
        Inr (?st1\<lparr>sa_errors := add_semantic_error (sa_errors ?st1) (cmd_line c2) (cmd_column c2 + 1)
                 (Redefinicion (cmd_name c2) (tipo_entidad (declared_entry c1)) (linea (declared_entry c1))),
             current_symbol_name := None\<rparr>)"
      by (simp only: semantic_pass_def sa_walk.simps 1 2 sum.case)
    also have "tipo_entidad (declared_entry c1) = cmd_kind c1" by (simp add: declared_entry_def)
    also have "linea (declared_entry c1) = cmd_line c1" by (simp add: declared_entry_def)
    finally show ?thesis by (simp add: same fun_upd_def)
  qed
qed

text \<open>
  Claim C6. \<open>declare\<close> on a name that is in the table returns false and the table as it
  was, whatever kind is asked for. A command that declares such a name (and the name is
  not a reserved word, which is reported instead) adds exactly one semantic error and
  leaves the table as it was. So two commands with one name, of either kind each, end with
  one semantic error, which names the kind and the line of the first, and with the table
  that the first command alone leaves: the first declaration's entry and metadata.
\<close>

theorem redefinition_is_rejected:
  "(name \<in> dom symbols \<longrightarrow> declare_symbol symbols name kind l c m = (False, symbols)) \<and>
   (\<not> is_reserved (cmd_name cmd) \<and> cmd_name cmd \<in> dom (sa_symbols st) \<longrightarrow>
      (\<exists>st'. sa_walk_comando st cmd = Inr st' \<and>
         semantic_errors (sa_errors st') = semantic_errors (sa_errors st) + 1 \<and>
         sa_symbols st' = sa_symbols st)) \<and>
   (\<not> is_reserved (cmd_name c1) \<and> cmd_name c2 = cmd_name c1 \<longrightarrow>
      (\<exists>st1 st2. semantic_pass src [c1] = Inr st1 \<and> semantic_pass src [c1, c2] = Inr st2 \<and>
         semantic_errors (sa_errors st1) = 0 \<and>
         semantic_errors (sa_errors st2) = 1 \<and>
         error_messages (sa_errors st2) =
           [Error_semantico src (cmd_line c2) (cmd_column c2 + 1)
              (Redefinicion (cmd_name c1) (cmd_kind c1) (cmd_line c1))] \<and>
         sa_symbols st2 = sa_symbols st1 \<and>
         sa_symbols st2 = [cmd_name c1 \<mapsto> declared_entry c1]))"
proof (intro conjI impI)
  assume "name \<in> dom symbols"
  then show "declare_symbol symbols name kind l c m = (False, symbols)"
    by (rule declare_symbol_present)
next
  assume "\<not> is_reserved (cmd_name cmd) \<and> cmd_name cmd \<in> dom (sa_symbols st)"
  then show "\<exists>st'. sa_walk_comando st cmd = Inr st' \<and>
         semantic_errors (sa_errors st') = semantic_errors (sa_errors st) + 1 \<and>
         sa_symbols st' = sa_symbols st"
    using sa_walk_comando_present by blast
next
  assume a: "\<not> is_reserved (cmd_name c1) \<and> cmd_name c2 = cmd_name c1"
  then have nr: "\<not> is_reserved (cmd_name c1)" and same: "cmd_name c2 = cmd_name c1" by blast+
  show "\<exists>st1 st2. semantic_pass src [c1] = Inr st1 \<and> semantic_pass src [c1, c2] = Inr st2 \<and>
         semantic_errors (sa_errors st1) = 0 \<and>
         semantic_errors (sa_errors st2) = 1 \<and>
         error_messages (sa_errors st2) =
           [Error_semantico src (cmd_line c2) (cmd_column c2 + 1)
              (Redefinicion (cmd_name c1) (cmd_kind c1) (cmd_line c1))] \<and>
         sa_symbols st2 = sa_symbols st1 \<and>
         sa_symbols st2 = [cmd_name c1 \<mapsto> declared_entry c1]"
    by (intro exI conjI, rule semantic_pass_twice(1)[OF nr same],
        rule semantic_pass_twice(2)[OF nr same])
       (simp_all add: add_semantic_error_def CustomErrorListener_def)
qed


lemma upper_char_simps:
  "upper_char c = (if 97 \<le> (of_char c :: nat) \<and> (of_char c :: nat) \<le> 122
                   then char_of ((of_char c :: nat) - 32) else c)"
  by (simp add: upper_char_def Let_def)

lemma not_reserved_a: "\<not> is_reserved ''a''"
  by (simp add: is_reserved_def upper_def upper_char_simps reserved_words_def)

theorem redefinition_is_rejected_witness:
  "\<not> is_reserved (cmd_name ex_objeto_a) \<and> cmd_name ex_lista_a = cmd_name ex_objeto_a \<and>
   declare_symbol [''a'' \<mapsto> declared_entry ex_objeto_a] ''a'' ''lista'' 3 1 None =
     (False, [''a'' \<mapsto> declared_entry ex_objeto_a]) \<and>
   (\<exists>st2. semantic_pass ''src'' [ex_objeto_a, ex_lista_a] = Inr st2 \<and>
      semantic_errors (sa_errors st2) = 1 \<and>
      error_messages (sa_errors st2) =
        [Error_semantico ''src'' 3 1 (Redefinicion ''a'' ''objeto'' 1)] \<and>
      sa_symbols st2 = [''a'' \<mapsto> declared_entry ex_objeto_a]) \<and>
   declared_entry ex_objeto_a =
     \<lparr>nombre = ''a'', tipo_entidad = ''objeto'', linea = 1, columna = 1,
      metadatos = [''propiedades'' \<mapsto> Props [''k'' \<mapsto> ''NUMBER'']]\<rparr>"
proof -
  have nr: "\<not> is_reserved (cmd_name ex_objeto_a)"
    using not_reserved_a by (simp add: ex_objeto_a_def)
  have same: "cmd_name ex_lista_a = cmd_name ex_objeto_a"
    by (simp add: ex_objeto_a_def ex_lista_a_def)
  have d: "''a'' \<in> dom [''a'' \<mapsto> declared_entry ex_objeto_a]" by simp
  note inst = redefinition_is_rejected[of "''a''" "[''a'' \<mapsto> declared_entry ex_objeto_a]"
      "''lista''" 3 1 None ex_lista_a
      "SemanticAnalyzer (CustomErrorListener ''src'') [''a'' \<mapsto> declared_entry ex_objeto_a]"
      ex_objeto_a ex_lista_a "''src''"]
  from inst d have 1: "declare_symbol [''a'' \<mapsto> declared_entry ex_objeto_a] ''a'' ''lista'' 3 1 None =
     (False, [''a'' \<mapsto> declared_entry ex_objeto_a])"
    by blast
  from inst nr same obtain st2 where
    2: "semantic_pass ''src'' [ex_objeto_a, ex_lista_a] = Inr st2"
       "semantic_errors (sa_errors st2) = 1"
       "error_messages (sa_errors st2) =
           [Error_semantico ''src'' (cmd_line ex_lista_a) (cmd_column ex_lista_a + 1)
              (Redefinicion (cmd_name ex_objeto_a) (cmd_kind ex_objeto_a) (cmd_line ex_objeto_a))]"
       "sa_symbols st2 = [cmd_name ex_objeto_a \<mapsto> declared_entry ex_objeto_a]"
    by blast
  have 3: "cmd_line ex_lista_a = 3" "cmd_column ex_lista_a + 1 = 1" "cmd_name ex_objeto_a = ''a''"
    "cmd_kind ex_objeto_a = ''objeto''" "cmd_line ex_objeto_a = 1"
    by (simp_all add: ex_objeto_a_def ex_lista_a_def)
  have 4: "declared_entry ex_objeto_a =
     \<lparr>nombre = ''a'', tipo_entidad = ''objeto'', linea = 1, columna = 1,
      metadatos = [''propiedades'' \<mapsto> Props [''k'' \<mapsto> ''NUMBER'']]\<rparr>"
    by (simp add: declared_entry_def ex_objeto_a_def get_value_type_def)
  from 2 have "\<exists>st2. semantic_pass ''src'' [ex_objeto_a, ex_lista_a] = Inr st2 \<and>
      semantic_errors (sa_errors st2) = 1 \<and>
      error_messages (sa_errors st2) =
        [Error_semantico ''src'' 3 1 (Redefinicion ''a'' ''objeto'' 1)] \<and>
      sa_symbols st2 = [''a'' \<mapsto> declared_entry ex_objeto_a]"
    unfolding 3 by blast
  with nr same 1 4 show ?thesis by (intro conjI)
qed

subsection \<open>Reserved words and letter case\<close>

lemma other_case_upper:
  assumes "other_case x y"
  shows "upper_char x = upper_char y"
proof -
  define a b where "a = (of_char x :: nat)" and "b = (of_char y :: nat)"
  have cx: "char_of a = x" and cy: "char_of b = y" by (simp_all add: a_def b_def)
  have ux: "upper_char x = (if 97 \<le> a \<and> a \<le> 122 then char_of (a - 32) else x)"
    and uy: "upper_char y = (if 97 \<le> b \<and> b \<le> 122 then char_of (b - 32) else y)"
    by (simp_all only: upper_char_simps a_def b_def)
  from assms consider "97 \<le> a \<and> a \<le> 122 \<and> b + 32 = a" | "97 \<le> b \<and> b \<le> 122 \<and> a + 32 = b"
    unfolding other_case_def Let_def a_def b_def by blast
  then show ?thesis
  proof cases
    case 1
    then have "a - 32 = b" and "\<not> (97 \<le> b \<and> b \<le> 122)" by auto
    then show ?thesis using 1 cy by (simp add: ux uy)
  next
    case 2
    then have "b - 32 = a" and "\<not> (97 \<le> a \<and> a \<le> 122)" by auto
    then show ?thesis using 2 cx by (simp add: ux uy)
  qed
qed

lemma case_variant_upper: "case_variant a b \<Longrightarrow> upper a = upper b"
  unfolding case_variant_def upper_def
  by (induction a b rule: list_all2_induct) (auto dest: other_case_upper)

lemma upper_reserved: "k \<in> reserved_words \<Longrightarrow> upper k = k"
  by (auto simp: reserved_words_def upper_def upper_char_simps)

lemma case_variant_reserved:
  assumes "k \<in> reserved_words" "case_variant v k"
  shows "is_reserved v"
proof -
  have "upper v = upper k" using assms(2) by (rule case_variant_upper)
  then show ?thesis using assms(1) by (simp add: is_reserved_def upper_reserved)
qed

lemma semantic_pass_two_names:
  assumes nr1: "\<not> is_reserved (cmd_name c1)" and nr2: "\<not> is_reserved (cmd_name c2)"
    and ne: "cmd_name c1 \<noteq> cmd_name c2"
  shows "semantic_pass src [c1, c2] =
      Inr \<lparr>sa_errors = CustomErrorListener src,
           sa_symbols = [cmd_name c1 \<mapsto> declared_entry c1, cmd_name c2 \<mapsto> declared_entry c2],
           current_symbol_name = None\<rparr>"
proof -
  let ?st0 = "SemanticAnalyzer (CustomErrorListener src) Map.empty"
  let ?st1 = "\<lparr>sa_errors = CustomErrorListener src,
           sa_symbols = [cmd_name c1 \<mapsto> declared_entry c1], current_symbol_name = None\<rparr>"
  have 1: "sa_walk_comando ?st0 c1 = Inr ?st1"
    using sa_walk_comando_declared[of c1 ?st0] nr1 by (simp add: SemanticAnalyzer_def)
  have 2: "sa_walk_comando ?st1 c2 =
      Inr (?st1\<lparr>sa_symbols := (sa_symbols ?st1)(cmd_name c2 \<mapsto> declared_entry c2),
             current_symbol_name := None\<rparr>)"
    by (rule sa_walk_comando_declared) (use nr2 ne in simp_all)
  have "semantic_pass src [c1, c2] =
      Inr (?st1\<lparr>sa_symbols := (sa_symbols ?st1)(cmd_name c2 \<mapsto> declared_entry c2),
             current_symbol_name := None\<rparr>)"
    by (simp only: semantic_pass_def sa_walk.simps 1 2 sum.case)
  then show ?thesis by (simp add: fun_upd_def)
qed

text \<open>
  Claim C10. Every letter-case variant of a reserved word is reported as reserved. The
  table itself compares names as they are written: two names that differ only in letter
  case and are not reserved are both declared, without a diagnostic, each with its own
  entry.
\<close>

theorem reserved_ignores_case_table_does_not:
  "(k \<in> reserved_words \<and> case_variant v k \<longrightarrow> is_reserved v) \<and>
   (case_variant (cmd_name c1) (cmd_name c2) \<and> cmd_name c1 \<noteq> cmd_name c2 \<and>
    \<not> is_reserved (cmd_name c1) \<longrightarrow>
      (\<exists>st. semantic_pass src [c1, c2] = Inr st \<and>
         semantic_errors (sa_errors st) = 0 \<and> error_messages (sa_errors st) = [] \<and>
         dom (sa_symbols st) = {cmd_name c1, cmd_name c2} \<and>
         sa_symbols st (cmd_name c1) = Some (declared_entry c1) \<and>
         sa_symbols st (cmd_name c2) = Some (declared_entry c2)))"
proof (intro conjI impI)
  assume "k \<in> reserved_words \<and> case_variant v k"
  then show "is_reserved v" using case_variant_reserved by blast
next
  assume a: "case_variant (cmd_name c1) (cmd_name c2) \<and> cmd_name c1 \<noteq> cmd_name c2 \<and>
    \<not> is_reserved (cmd_name c1)"
  then have "upper (cmd_name c1) = upper (cmd_name c2)" using case_variant_upper by blast
  with a have nr2: "\<not> is_reserved (cmd_name c2)" by (simp add: is_reserved_def)
  from a have nr1: "\<not> is_reserved (cmd_name c1)" and ne: "cmd_name c1 \<noteq> cmd_name c2" by blast+
  show "\<exists>st. semantic_pass src [c1, c2] = Inr st \<and>
         semantic_errors (sa_errors st) = 0 \<and> error_messages (sa_errors st) = [] \<and>
         dom (sa_symbols st) = {cmd_name c1, cmd_name c2} \<and>
         sa_symbols st (cmd_name c1) = Some (declared_entry c1) \<and>
         sa_symbols st (cmd_name c2) = Some (declared_entry c2)"
    by (intro exI conjI, rule semantic_pass_two_names[OF nr1 nr2 ne])
       (use ne in \<open>auto simp: CustomErrorListener_def\<close>)
qed

theorem reserved_ignores_case_table_does_not_witness:
  "''LISTA'' \<in> reserved_words \<and> case_variant ''LiStA'' ''LISTA'' \<and> is_reserved ''LiStA'' \<and>
   case_variant (cmd_name ex_objeto_a) (cmd_name ex_objeto_A) \<and>
   cmd_name ex_objeto_a \<noteq> cmd_name ex_objeto_A \<and> \<not> is_reserved (cmd_name ex_objeto_a) \<and>
   (\<exists>st. semantic_pass ''src'' [ex_objeto_a, ex_objeto_A] = Inr st \<and>
      semantic_errors (sa_errors st) = 0 \<and>
      dom (sa_symbols st) = {''a'', ''A''} \<and>
      sa_symbols st ''a'' = Some (declared_entry ex_objeto_a) \<and>
      sa_symbols st ''A'' = Some (declared_entry ex_objeto_A))"
proof -
  have k: "''LISTA'' \<in> reserved_words" by (simp add: reserved_words_def)
  have v: "case_variant ''LiStA'' ''LISTA''"
    by (simp add: case_variant_def other_case_def)
  have cv: "case_variant (cmd_name ex_objeto_a) (cmd_name ex_objeto_A)"
    by (simp add: ex_objeto_a_def ex_objeto_A_def case_variant_def other_case_def)
  have ne: "cmd_name ex_objeto_a \<noteq> cmd_name ex_objeto_A"
    by (simp add: ex_objeto_a_def ex_objeto_A_def)
  have nr: "\<not> is_reserved (cmd_name ex_objeto_a)"
    using not_reserved_a by (simp add: ex_objeto_a_def)
  note inst = reserved_ignores_case_table_does_not[of "''LISTA''" "''LiStA''"
      ex_objeto_a ex_objeto_A "''src''"]
  from k v have "''LISTA'' \<in> reserved_words \<and> case_variant ''LiStA'' ''LISTA''" by (rule conjI)
  with inst[THEN conjunct1] have 1: "is_reserved ''LiStA''" by (rule mp)
  have names: "cmd_name ex_objeto_a = ''a''" "cmd_name ex_objeto_A = ''A''"
    by (simp_all add: ex_objeto_a_def ex_objeto_A_def)
  from cv ne nr have "case_variant (cmd_name ex_objeto_a) (cmd_name ex_objeto_A) \<and>
      cmd_name ex_objeto_a \<noteq> cmd_name ex_objeto_A \<and> \<not> is_reserved (cmd_name ex_objeto_a)"
    by (intro conjI)
  with inst[THEN conjunct2] have "\<exists>st. semantic_pass ''src'' [ex_objeto_a, ex_objeto_A] = Inr st \<and>
         semantic_errors (sa_errors st) = 0 \<and> error_messages (sa_errors st) = [] \<and>
         dom (sa_symbols st) = {cmd_name ex_objeto_a, cmd_name ex_objeto_A} \<and>
         sa_symbols st (cmd_name ex_objeto_a) = Some (declared_entry ex_objeto_a) \<and>
         sa_symbols st (cmd_name ex_objeto_A) = Some (declared_entry ex_objeto_A)"
    by (rule mp)
  then have 2: "\<exists>st. semantic_pass ''src'' [ex_objeto_a, ex_objeto_A] = Inr st \<and>
      semantic_errors (sa_errors st) = 0 \<and>
      dom (sa_symbols st) = {''a'', ''A''} \<and>
      sa_symbols st ''a'' = Some (declared_entry ex_objeto_a) \<and>
      sa_symbols st ''A'' = Some (declared_entry ex_objeto_A)"
    unfolding names by (elim exE conjE) (intro exI conjI)
  from k v 1 cv ne nr 2 show ?thesis by (intro conjI)
qed

section \<open>Properties of the pipeline\<close>

lemma sa_walk_comando_total: "\<exists>st'. sa_walk_comando st c = Inr st'"
proof (cases "is_reserved (cmd_name c)")
  case True
  then show ?thesis using sa_walk_comando_reserved by blast
next
  case False
  then show ?thesis
    using sa_walk_comando_redefinition[of c st] sa_walk_comando_declared[of c st]
    by (cases "sa_symbols st (cmd_name c)") blast+
qed

lemma sa_walk_total: "\<exists>st'. sa_walk st prog = Inr st'"
proof (induction prog arbitrary: st)
  case Nil
  then show ?case by simp
next
  case (Cons c prog)
  obtain st1 where "sa_walk_comando st c = Inr st1" using sa_walk_comando_total by blast
  then show ?case using Cons.IH[of st1] by simp
qed

lemma get_total_errors_foldl:
  "get_total_errors (foldl syntaxError el evs) = get_total_errors el + length evs"
  by (induction evs arbitrary: el) (auto simp: syntaxError_def get_total_errors_def Let_def)

lemma semantic_errors_foldl:
  "semantic_errors (foldl syntaxError el evs) = semantic_errors el"
  by (induction evs arbitrary: el) (auto simp: syntaxError_def Let_def)

lemma analyze_gated:
  assumes "analyze_and_transform jp src evs tree = Inr r" "0 < errores_semanticos r"
  shows "json_output_string r = None \<and> ir r = []"
  using assms
  by (auto simp: analyze_and_transform_def Let_def make_result_def
      split: if_splits sum.splits)

lemma analyze_semantic_error:
  assumes "semantic_pass src tree = Inr st" "0 < semantic_errors (sa_errors st)"
  shows "analyze_and_transform jp src [] tree =
     Inr (make_result None (sa_errors st) (get_debug_info (sa_symbols st)) [])"
  using assms
  by (simp add: analyze_and_transform_def semantic_pass_def SemanticAnalyzer_def Let_def
      CustomErrorListener_def get_total_errors_def)


lemma not_reserved_b: "\<not> is_reserved ''b''"
  by (simp add: is_reserved_def upper_def upper_char_simps reserved_words_def)

lemma ex_redefinition_pass:
  "\<exists>st. semantic_pass ''src'' ex_redefinition = Inr st \<and> semantic_errors (sa_errors st) = 1"
proof -
  let ?c1 = "Crear_objeto_cmd ''a'' 1 0 [\<lparr>clave = ''k'', valor = NUMERO_ENTERO 1\<rparr>]"
  let ?c2 = "Crear_lista_cmd ''b'' 2 0 [KW_VERDADERO]"
  let ?c3 = "Crear_lista_cmd ''a'' 3 0 [STRING ''xyz'']"
  let ?st0 = "SemanticAnalyzer (CustomErrorListener ''src'') Map.empty"
  have 1: "sa_walk_comando ?st0 ?c1 =
      Inr (?st0\<lparr>sa_symbols := (sa_symbols ?st0)(cmd_name ?c1 \<mapsto> declared_entry ?c1),
               current_symbol_name := None\<rparr>)"
    by (rule sa_walk_comando_declared) (simp_all add: not_reserved_a SemanticAnalyzer_def)
  let ?st1 = "?st0\<lparr>sa_symbols := (sa_symbols ?st0)(cmd_name ?c1 \<mapsto> declared_entry ?c1),
               current_symbol_name := None\<rparr>"
  have 2: "sa_walk_comando ?st1 ?c2 =
      Inr (?st1\<lparr>sa_symbols := (sa_symbols ?st1)(cmd_name ?c2 \<mapsto> declared_entry ?c2),
               current_symbol_name := None\<rparr>)"
    by (rule sa_walk_comando_declared) (simp_all add: not_reserved_b SemanticAnalyzer_def)
  let ?st2 = "?st1\<lparr>sa_symbols := (sa_symbols ?st1)(cmd_name ?c2 \<mapsto> declared_entry ?c2),
               current_symbol_name := None\<rparr>"
  have 3: "sa_walk_comando ?st2 ?c3 =
      Inr (?st2\<lparr>sa_errors := add_semantic_error (sa_errors ?st2) (cmd_line ?c3) (cmd_column ?c3 + 1)
                 (Redefinicion (cmd_name ?c3) (tipo_entidad (declared_entry ?c1)) (linea (declared_entry ?c1))),
             current_symbol_name := None\<rparr>)"
    by (rule sa_walk_comando_redefinition) (simp_all add: not_reserved_a SemanticAnalyzer_def)
  have "semantic_pass ''src'' ex_redefinition =
      Inr (?st2\<lparr>sa_errors := add_semantic_error (sa_errors ?st2) (cmd_line ?c3) (cmd_column ?c3 + 1)
                 (Redefinicion (cmd_name ?c3) (tipo_entidad (declared_entry ?c1)) (linea (declared_entry ?c1))),
             current_symbol_name := None\<rparr>)"
    unfolding semantic_pass_def ex_redefinition_def
    by (simp only: sa_walk.simps 1 2 3 sum.case)
  then show ?thesis
    by (simp add: add_semantic_error_def SemanticAnalyzer_def CustomErrorListener_def)
qed

text \<open>
  Claim C5. Whatever \<open>analyze_and_transform\<close> returns with a semantic error count above
  zero has no JSON string and an empty IR. The semantic pass always returns; when it has
  recorded a semantic error, on a tree parsed without errors, the pipeline returns that
  result, however many commands before the error were valid.
\<close>

theorem semantic_error_gates_output:
  "(analyze_and_transform jp src evs tree = Inr r \<and> 0 < errores_semanticos r \<longrightarrow>
      json_output_string r = None \<and> ir r = []) \<and>
   (\<exists>st. semantic_pass src tree = Inr st) \<and>
   (semantic_pass src tree = Inr st \<and> 0 < semantic_errors (sa_errors st) \<longrightarrow>
      (\<exists>r. analyze_and_transform jp src [] tree = Inr r \<and>
         json_output_string r = None \<and> ir r = [] \<and>
         errores_semanticos r = semantic_errors (sa_errors st)))"
proof (intro conjI impI)
  assume "analyze_and_transform jp src evs tree = Inr r \<and> 0 < errores_semanticos r"
  then show "json_output_string r = None" and "ir r = []"
    using analyze_gated by blast+
next
  show "\<exists>st. semantic_pass src tree = Inr st"
    unfolding semantic_pass_def by (rule sa_walk_total)
next
  assume "semantic_pass src tree = Inr st \<and> 0 < semantic_errors (sa_errors st)"
  then have "analyze_and_transform jp src [] tree =
     Inr (make_result None (sa_errors st) (get_debug_info (sa_symbols st)) [])"
    using analyze_semantic_error by blast
  then show "\<exists>r. analyze_and_transform jp src [] tree = Inr r \<and>
         json_output_string r = None \<and> ir r = [] \<and>
         errores_semanticos r = semantic_errors (sa_errors st)"
    by (simp add: make_result_def)
qed

theorem semantic_error_gates_output_witness:
  "\<exists>st r. semantic_pass ''src'' ex_redefinition = Inr st \<and>
     semantic_errors (sa_errors st) = 1 \<and>
     analyze_and_transform (\<lambda>tree. ''{}'') ''src'' [] ex_redefinition = Inr r \<and>
     json_output_string r = None \<and> ir r = [] \<and> errores_semanticos r = 1"
proof -
  from ex_redefinition_pass obtain st where
    st: "semantic_pass ''src'' ex_redefinition = Inr st" "semantic_errors (sa_errors st) = 1"
    by blast
  then have "semantic_pass ''src'' ex_redefinition = Inr st \<and> 0 < semantic_errors (sa_errors st)"
    by simp
  with semantic_error_gates_output[of "\<lambda>tree. ''{}''" "''src''" "[]" ex_redefinition _ st]
  obtain r where "analyze_and_transform (\<lambda>tree. ''{}'') ''src'' [] ex_redefinition = Inr r"
    "json_output_string r = None" "ir r = []"
    "errores_semanticos r = semantic_errors (sa_errors st)"
    by blast
  with st show ?thesis by (intro exI[of _ st] exI[of _ r]) simp
qed

section \<open>Properties of the IR builder\<close>








section \<open>Properties of the replay\<close>

subsection \<open>Names and keys that are pasted as they are\<close>


lemma ident_char_not_blank: "ident_char c \<Longrightarrow> c \<noteq> CHR 0x20"
  by (auto simp: ident_char_def ident_start_def Let_def)

lemma py_name_last: "py_name n \<Longrightarrow> n \<noteq> [] \<and> ident_char (last n)"
proof -
  assume a: "py_name n"
  then obtain c cs where n: "n = c # cs" and c: "ident_start c" and cs: "list_all ident_char cs"
    by (auto simp: py_name_def split: list.splits)
  show "n \<noteq> [] \<and> ident_char (last n)"
  proof (cases cs)
    case Nil
    then show ?thesis using n c by (simp add: ident_char_def Let_def)
  next
    case (Cons d ds)
    then have "last n = last cs" using n by simp
    moreover have "last cs \<in> set cs" using Cons by simp
    ultimately show ?thesis using cs n by (simp add: list_all_iff)
  qed
qed

lemma py_name_strip: "py_name n \<Longrightarrow> strip_blanks n = n"
proof -
  assume a: "py_name n"
  from py_name_last[OF a] have ne: "n \<noteq> []" and l: "last n \<noteq> CHR 0x20"
    using ident_char_not_blank by blast+
  from ne have r: "rev n = last n # rev (butlast n)"
    by (metis append_butlast_last_id rev.simps(2) rev_append rev_rev_ident append_Cons append_Nil)
  have "dropWhile (\<lambda>c. c = CHR 0x20) (last n # rev (butlast n)) = last n # rev (butlast n)"
    using l by simp
  then have "dropWhile (\<lambda>c. c = CHR 0x20) (rev n) = rev n" by (simp only: r)
  then show "strip_blanks n = n" by (simp add: strip_blanks_def)
qed

lemma variable_of_name: "py_name n \<Longrightarrow> variable_of (PStr n) = Some n"
  by (simp add: variable_of_def py_str_def py_name_strip)

lemma key_of_plain: "list_all key_char s \<Longrightarrow> key_of (PStr s) = Some s"
  by (simp add: key_of_def py_str_def)

subsection \<open>Replay, instruction by instruction\<close>








subsection \<open>Replay, variable by variable\<close>



subsection \<open>What a successful replay says about the instructions\<close>











subsection \<open>Phase 1 and the instructions on one variable\<close>



subsection \<open>Phase 2 and the instructions on one variable\<close>






subsection \<open>Last write wins, on one variable\<close>




subsection \<open>The optimizer and the instructions on one variable\<close>





subsection \<open>The last write and the appended elements\<close>












subsection \<open>The shapes of the IR and the fragment\<close>

lemma those_None: "those ys = None \<longleftrightarrow> None \<in> set ys"
  by (induction ys) (auto split: option.splits)

lemma generate_lines_set:
  "generate_lines xs acc = Inr code \<Longrightarrow> l \<in> set code \<Longrightarrow>
     l \<in> set acc \<or> (\<exists>x \<in> set xs. \<exists>ls. emit_instr x = Inr ls \<and> l \<in> set ls)"
proof (induction xs arbitrary: acc)
  case Nil
  then show ?case by simp
next
  case (Cons x xs)
  from Cons.prems(1) obtain ls where e: "emit_instr x = Inr ls"
    and g: "generate_lines xs (acc @ ls) = Inr code"
    by (auto split: sum.splits)
  from Cons.IH[OF g Cons.prems(2)] show ?case using e by auto
qed

lemma value_ok_literal: "value_ok tipo v \<Longrightarrow> eval_expr (format_value v tipo) \<noteq> None"
  by (cases v) (auto simp: value_ok_def format_value_def eval_expr_def)

lemma line_read:
  assumes k: "known_opcode x" and n: "names_ok [x]" and ks: "keys_ok [x]" and vs: "values_ok [x]"
    and e: "emit_instr x = Inr ls" and l: "l \<in> set ls"
  shows "read_stmt l \<noteq> None"
proof -
  consider "opcode x = ''IR_CREATE_OBJECT''" | "opcode x = ''IR_CREATE_LIST''"
    | "opcode x = ''IR_SET_PROPERTY''" | "opcode x = ''IR_APPEND_LIST''"
    using k by (auto simp: known_opcode_def is_creation_def is_operation_def)
  then show ?thesis
  proof cases
    case 1
    with e l obtain a r where a: "args x = a # r" and ll: "l = Assign_dict a"
      by (auto simp: emit_instr_def split: list.splits)
    with n obtain nm where "a = PStr nm" "py_name nm"
      by (auto simp: names_ok_def split: pyval.splits)
    then show ?thesis using ll by (simp add: read_stmt_def variable_of_name)
  next
    case 2
    with e l obtain a r where a: "args x = a # r" and ll: "l = Assign_list a"
      by (auto simp: emit_instr_def split: list.splits)
    with n obtain nm where "a = PStr nm" "py_name nm"
      by (auto simp: names_ok_def split: pyval.splits)
    then show ?thesis using ll by (simp add: read_stmt_def variable_of_name)
  next
    case 3
    with e l obtain a b tipo w where a: "args x = [a, b, tipo, w]"
      and ll: "l = Set_item a b (format_value w tipo)"
      by (auto simp: emit_instr_def split: list.splits)
    from a n obtain nm where nm: "a = PStr nm" "py_name nm"
      by (auto simp: names_ok_def split: pyval.splits)
    from a ks 3 obtain s where s: "b = PStr s" "list_all key_char s"
      by (auto simp: keys_ok_def is_set_def split: pyval.splits)
    from a vs 3 have "value_ok tipo w" by (simp add: values_ok_def)
    from value_ok_literal[OF this] obtain u where "eval_expr (format_value w tipo) = Some u"
      by blast
    then show ?thesis
      using ll nm s by (simp add: read_stmt_def variable_of_name key_of_plain)
  next
    case 4
    with e l obtain a tipo w where a: "args x = [a, tipo, w]"
      and ll: "l = Append a (format_value w tipo)"
      by (auto simp: emit_instr_def split: list.splits)
    from a n obtain nm where nm: "a = PStr nm" "py_name nm"
      by (auto simp: names_ok_def split: pyval.splits)
    from a vs 4 have "value_ok tipo w" by (simp add: values_ok_def)
    from value_ok_literal[OF this] obtain u where "eval_expr (format_value w tipo) = Some u"
      by blast
    then show ?thesis
      using ll nm by (simp add: read_stmt_def variable_of_name)
  qed
qed

lemma replay_in_fragment:
  assumes known: "\<forall>x \<in> set xs. known_opcode x" and n: "names_ok xs" and k: "keys_ok xs"
    and v: "values_ok xs"
  shows "replay xs \<noteq> Outside"
proof
  assume "replay xs = Outside"
  then obtain code where g: "generate_lines xs [Comment] = Inr code"
    and t: "those (map read_stmt code) = None"
    by (auto simp: replay_def generate_python_from_ir_def exec_code_def
        split: sum.splits option.splits)
  from t obtain l where l: "l \<in> set code" "read_stmt l = None"
    by (auto simp: those_None image_iff)
  from generate_lines_set[OF g l(1)] l(2)
  obtain x ls where x: "x \<in> set xs" "emit_instr x = Inr ls" "l \<in> set ls"
    by (auto simp: read_stmt_def)
  have "names_ok [x]" "keys_ok [x]" "values_ok [x]"
    using n k v x(1) by (simp_all add: names_ok_def keys_ok_def values_ok_def list_all_iff)
  from line_read[OF _ this x(2,3)] known x(1) l(2) show False by blast
qed

subsection \<open>Claims about the replay\<close>





end
